theory Spec2Isabelle
  imports Main
begin

section \<open>Tokens\<close>

text \<open>
  Modelled from the spec: the token kinds of \<^verbatim>\<open>sqlglot.tokens.TokenType\<close> that the parser
  names.  The enumeration itself is declared outside the parser module.
\<close>

datatype TokenType =
    T_SEMICOLON | T_WITH | T_IDENTIFIER | T_VAR | T_ALIAS | T_SELECT | T_FROM
  | T_LEFT | T_RIGHT | T_FULL | T_INNER | T_OUTER | T_CROSS | T_JOIN | T_ON
  | T_L_PAREN | T_R_PAREN | T_L_BRACKET | T_R_BRACKET | T_DOT | T_COMMA
  | T_WHERE | T_GROUP | T_BY | T_HAVING | T_ORDER | T_DESC | T_UNION | T_ALL
  | T_IN | T_BETWEEN | T_AND | T_OR | T_NOT | T_IS | T_EQ | T_NEQ
  | T_GT | T_GTE | T_LT | T_LTE | T_DASH | T_PLUS | T_SLASH | T_STAR
  | T_CAST | T_CASE | T_COUNT | T_WHEN | T_THEN | T_ELSE | T_END | T_DISTINCT
  | T_OVER | T_PARTITION | T_STRING | T_NUMBER | T_NULL
  | T_BOOLEAN | T_TINYINT | T_SMALLINT | T_INT | T_BIGINT | T_FLOAT | T_DOUBLE
  | T_DECIMAL | T_CHAR | T_VARCHAR | T_TEXT | T_BINARY | T_JSON

text \<open>
  Modelled from the spec: a token is a record of its kind, its literal text and its source
  position.  The parser reads \<^verbatim>\<open>token_type\<close> and \<^verbatim>\<open>text\<close> only.
\<close>

record token =
  token_type :: TokenType
  token_text :: string
  position :: nat

section \<open>Expression trees\<close>

text \<open>
  Modelled from the spec: the binary operator classes of \<^verbatim>\<open>sqlglot.expressions\<close>, which
  \<^verbatim>\<open>_parse_tokens\<close> receives as values and keys by their \<^verbatim>\<open>token_type\<close> attribute.
\<close>

datatype binary =
    exp_And | exp_Or | exp_EQ | exp_NEQ | exp_Is | exp_GT | exp_GTE | exp_LT | exp_LTE
  | exp_Minus | exp_Plus | exp_Slash | exp_Star

fun binary_token_type :: "binary \<Rightarrow> TokenType" where
  "binary_token_type exp_And = T_AND"
| "binary_token_type exp_Or = T_OR"
| "binary_token_type exp_EQ = T_EQ"
| "binary_token_type exp_NEQ = T_NEQ"
| "binary_token_type exp_Is = T_IS"
| "binary_token_type exp_GT = T_GT"
| "binary_token_type exp_GTE = T_GTE"
| "binary_token_type exp_LT = T_LT"
| "binary_token_type exp_LTE = T_LTE"
| "binary_token_type exp_Minus = T_DASH"
| "binary_token_type exp_Plus = T_PLUS"
| "binary_token_type exp_Slash = T_SLASH"
| "binary_token_type exp_Star = T_STAR"

text \<open>
  Modelled from the spec: the node variants, one constructor per class that the parser
  instantiates, with the keyword arguments in the order of the spec's data model.  Every
  child is a \<open>node option\<close>, since the productions may return Python's \<^verbatim>\<open>None\<close>;
  a bare token used as a leaf is \<open>Tok\<close>.
\<close>

datatype node =
    Tok token
  | exp_Select "node option list"
  | exp_From "node option" "node option"
  | exp_Join "node option" "node option" "node option" "node option" "node option"
  | exp_Where "node option" "node option"
  | exp_Group "node option" "node option list"
  | exp_Having "node option" "node option"
  | exp_Order "node option" "node option list" bool
  | exp_Union "node option" "node option" bool
  | exp_CTE "node option" "node option list"
  | exp_Table "node option" "node option"
  | exp_Alias "node option" "node option"
  | exp_Binary binary "node option" "node option"
  | exp_Not "node option"
  | exp_Neg "node option"
  | exp_In "node option" "node option list"
  | exp_Between "node option" "node option" "node option"
  | exp_Paren "node option"
  | exp_Bracket "node option" "node option list"
  | exp_Column "node option" "node option" "node option"
  | exp_Window "node option" "node option list option" "node option"
  | exp_Case "node option list" "node option"
  | exp_If "node option" "node option" "node option"
  | exp_Cast "node option" "node option"
  | exp_Count "node option" bool
  | exp_Avg "node option"
  | exp_Ceil "node option"
  | exp_Coalesce "node option list"
  | exp_First "node option"
  | exp_Floor "node option"
  | exp_Last "node option"
  | exp_LN "node option"
  | exp_Max "node option"
  | exp_Min "node option"
  | exp_Sum "node option"
  | exp_Rank "node option"
  | exp_RowNumber "node option"

section \<open>Errors and outcomes\<close>

text \<open>
  Every \<^verbatim>\<open>raise\<close> of the parser is a \<open>ValueError\<close>; the messages that format a token
  or a node into the text carry that value.  \<open>IndexError\<close>, \<open>KeyError\<close> and
  \<open>AttributeError\<close> are what Python raises on \<^verbatim>\<open>args[k]\<close>, on a missing dictionary key
  and on an attribute of \<^verbatim>\<open>None\<close>.
\<close>

datatype error =
    ValueError string
  | Invalid_expression "token option"
  | Unrecognized_function_name token
  | Expected_rparen_after_function token
  | Expected_rbracket_after "node option"
  | IndexError
  | KeyError
  | AttributeError

text \<open>
  A call either returns, raises, or exhausts the budget \<open>n\<close> that bounds the depth of the
  recursion and the iterations of each loop.
\<close>

datatype 'a outcome = OutOfFuel | Raise error | Return 'a

definition and_then :: "'a outcome \<Rightarrow> ('a \<Rightarrow> 'b outcome) \<Rightarrow> 'b outcome" where
  "and_then r k = (case r of OutOfFuel \<Rightarrow> OutOfFuel | Raise e \<Rightarrow> Raise e | Return x \<Rightarrow> k x)"

type_synonym builder = "node option list \<Rightarrow> error + node option"

section \<open>The function registry\<close>

definition arg :: "node option list \<Rightarrow> nat \<Rightarrow> error + node option" where
  "arg args k = (if k < length args then Inr (args ! k) else Inl IndexError)"

definition this_arg0 :: "(node option \<Rightarrow> node) \<Rightarrow> builder" where
  "this_arg0 cls args = (case arg args 0 of Inl e \<Rightarrow> Inl e | Inr a \<Rightarrow> Inr (Some (cls a)))"

definition FUNCTIONS :: "string \<rightharpoonup> builder" where
  "FUNCTIONS = map_of
     [(''AVG'', this_arg0 exp_Avg),
      (''CEIL'', this_arg0 exp_Ceil),
      (''COALESCE'', \<lambda>args. Inr (Some (exp_Coalesce args))),
      (''FIRST'', this_arg0 exp_First),
      (''FLOOR'', this_arg0 exp_Floor),
      (''LAST'', this_arg0 exp_Last),
      (''IF'', \<lambda>args.
         case arg args 0 of Inl e \<Rightarrow> Inl e | Inr c \<Rightarrow>
         (case arg args 1 of Inl e \<Rightarrow> Inl e | Inr t \<Rightarrow>
         (case arg args 2 of Inl e \<Rightarrow> Inl e | Inr f \<Rightarrow> Inr (Some (exp_If c t f))))),
      (''LN'', this_arg0 exp_LN),
      (''MAX'', this_arg0 exp_Max),
      (''MIN'', this_arg0 exp_Min),
      (''SUM'', this_arg0 exp_Sum),
      (''RANK'', this_arg0 exp_Rank),
      (''ROW_NUMBER'', this_arg0 exp_RowNumber)]"

definition TYPE_TOKENS :: "TokenType list" where
  "TYPE_TOKENS = [T_BOOLEAN, T_TINYINT, T_SMALLINT, T_INT, T_BIGINT, T_FLOAT, T_DOUBLE,
     T_DECIMAL, T_CHAR, T_VARCHAR, T_TEXT, T_BINARY, T_JSON]"

definition COLUMN_TOKENS :: "TokenType list" where
  "COLUMN_TOKENS = [T_VAR, T_IDENTIFIER, T_STAR]"

text \<open>\<^verbatim>\<open>__init__\<close>: the caller's entries are laid over the built-in table.\<close>

definition Parser_functions :: "(string \<rightharpoonup> builder) \<Rightarrow> (string \<rightharpoonup> builder)" where
  "Parser_functions opts = FUNCTIONS ++ opts"

text \<open>\<^verbatim>\<open>str.upper\<close>, on the ASCII letters.\<close>

definition upper_char :: "char \<Rightarrow> char" where
  "upper_char c =
     (case map_of (zip ''abcdefghijklmnopqrstuvwxyz'' ''ABCDEFGHIJKLMNOPQRSTUVWXYZ'') c of
        None \<Rightarrow> c
      | Some u \<Rightarrow> u)"

definition upper :: "string \<Rightarrow> string" where
  "upper s = map upper_char s"

section \<open>The cursor\<close>

text \<open>
  \<^verbatim>\<open>_safe_get\<close> indexes the Python list: a negative index counts from the end, and an
  index out of range gives \<^verbatim>\<open>None\<close>.
\<close>

definition safe_get :: "token list \<Rightarrow> int \<Rightarrow> token option" where
  "safe_get tokens index =
     (if 0 \<le> index then
        (if index < int (length tokens) then Some (tokens ! nat index) else None)
      else
        (if - int (length tokens) \<le> index then Some (tokens ! nat (int (length tokens) + index))
         else None))"

definition advance :: "int \<Rightarrow> int" where
  "advance index = index + 1"

definition prev :: "token list \<Rightarrow> int \<Rightarrow> token option" where
  "prev tokens index = safe_get tokens (index - 1)"

definition curr :: "token list \<Rightarrow> int \<Rightarrow> token option" where
  "curr tokens index = safe_get tokens index"

text \<open>\<^verbatim>\<open>self._prev\<close> stored as a child of a node.\<close>

definition prev_node :: "token list \<Rightarrow> int \<Rightarrow> node option" where
  "prev_node tokens index = map_option Tok (prev tokens index)"

definition match :: "TokenType list \<Rightarrow> token list \<Rightarrow> int \<Rightarrow> bool \<times> int" where
  "match types tokens index =
     (case curr tokens index of
        None \<Rightarrow> (False, index)
      | Some c \<Rightarrow> if token_type c \<in> set types then (True, advance index) else (False, index))"

section \<open>The grammar\<close>

text \<open>
  The methods of the parser call each other through \<^verbatim>\<open>self\<close>.  A \<open>production\<close> names a
  method together with its argument, and \<open>self\<close> below is the parser at the next recursion
  depth: \<open>self (P_from this) index\<close> is the call \<^verbatim>\<open>self._parse_from(this)\<close> with the cursor
  at \<open>index\<close>.  The token list of the chunk is read only; the cursor is threaded through
  and returned with the result.
\<close>

datatype production =
    P_statement | P_cte | P_select
  | P_from "node option" | P_join "node option" | P_table
  | P_where "node option" | P_group "node option" | P_having "node option"
  | P_order "node option" | P_union "node option"
  | P_expression | P_conjunction | P_equality | P_comparison | P_range | P_term | P_factor
  | P_unary | P_special | P_case | P_count | P_cast | P_primary | P_column
  | P_brackets "node option" | P_window "node option"

type_synonym parsed = "(node option \<times> int) outcome"

type_synonym self = "production \<Rightarrow> int \<Rightarrow> parsed"

definition parse_alias :: "token list \<Rightarrow> node option \<Rightarrow> int \<Rightarrow> node option \<times> int" where
  "parse_alias tokens this index =
     (let (_, index) = match [T_ALIAS] tokens index;
          (m, index) = match [T_IDENTIFIER, T_VAR] tokens index
      in if m then (Some (exp_Alias this (prev_node tokens index)), index) else (this, index))"

subsection \<open>The two generic loops\<close>

fun parse_csv_while ::
  "nat \<Rightarrow> (int \<Rightarrow> parsed) \<Rightarrow> token list \<Rightarrow> node option list \<Rightarrow> int
     \<Rightarrow> (node option list \<times> int) outcome" where
  "parse_csv_while 0 parse tokens items index = OutOfFuel"
| "parse_csv_while (Suc n) parse tokens items index =
     (let (m, index) = match [T_COMMA] tokens index in
      if m then
        and_then (parse index) (\<lambda>(x, index). parse_csv_while n parse tokens (items @ [x]) index)
      else Return (items, index))"

definition parse_csv ::
  "nat \<Rightarrow> (int \<Rightarrow> parsed) \<Rightarrow> token list \<Rightarrow> int \<Rightarrow> (node option list \<times> int) outcome" where
  "parse_csv n parse tokens index =
     and_then (parse index) (\<lambda>(x, index). parse_csv_while n parse tokens [x] index)"

text \<open>The dictionary from token kind to operator class that \<^verbatim>\<open>_parse_tokens\<close> builds.\<close>

definition expressions_dict :: "binary list \<Rightarrow> (TokenType \<rightharpoonup> binary)" where
  "expressions_dict expressions = map_of (rev (map (\<lambda>e. (binary_token_type e, e)) expressions))"

fun parse_tokens_while ::
  "nat \<Rightarrow> (int \<Rightarrow> parsed) \<Rightarrow> binary list \<Rightarrow> token list \<Rightarrow> node option \<Rightarrow> int \<Rightarrow> parsed" where
  "parse_tokens_while 0 parse expressions tokens this index = OutOfFuel"
| "parse_tokens_while (Suc n) parse expressions tokens this index =
     (let (m, index) = match (map binary_token_type expressions) tokens index in
      if m then
        (case prev tokens index of
           None \<Rightarrow> Raise AttributeError
         | Some p \<Rightarrow>
             (case expressions_dict expressions (token_type p) of
                None \<Rightarrow> Raise KeyError
              | Some cls \<Rightarrow>
                  and_then (parse index) (\<lambda>(expression, index).
                    parse_tokens_while n parse expressions tokens
                      (Some (exp_Binary cls this expression)) index)))
      else Return (this, index))"

definition parse_tokens ::
  "nat \<Rightarrow> (int \<Rightarrow> parsed) \<Rightarrow> binary list \<Rightarrow> token list \<Rightarrow> int \<Rightarrow> parsed" where
  "parse_tokens n parse expressions tokens index =
     and_then (parse index) (\<lambda>(this, index).
       parse_tokens_while n parse expressions tokens this index)"

subsection \<open>Statements and the select pipeline\<close>

definition parse_statement :: "nat \<Rightarrow> self \<Rightarrow> token list \<Rightarrow> int \<Rightarrow> parsed" where
  "parse_statement n self tokens index =
     (let (m, index) = match [T_WITH] tokens index in
      if \<not> m then self P_select index
      else
        and_then (parse_csv n (self P_cte) tokens index) (\<lambda>(expressions, index).
        and_then (self P_select index) (\<lambda>(this, index).
        Return (Some (exp_CTE this expressions), index))))"

definition parse_cte :: "nat \<Rightarrow> self \<Rightarrow> token list \<Rightarrow> int \<Rightarrow> parsed" where
  "parse_cte n self tokens index =
     (let (m, index) = match [T_IDENTIFIER, T_VAR] tokens index in
      if \<not> m then Raise (ValueError ''Expected alias after WITH'')
      else
        (let alias = prev_node tokens index;
             (m, index) = match [T_ALIAS] tokens index in
         if \<not> m then Raise (ValueError ''Expected AS after WITH'')
         else
           and_then (self P_table index) (\<lambda>(this, index).
           Return (Some (exp_Alias this alias), index))))"

definition parse_select :: "nat \<Rightarrow> self \<Rightarrow> token list \<Rightarrow> int \<Rightarrow> parsed" where
  "parse_select n self tokens index =
     (let (m, index) = match [T_SELECT] tokens index in
      if \<not> m then Return (None, index)
      else
        and_then (parse_csv n (self P_expression) tokens index) (\<lambda>(expressions, index).
        and_then (self (P_from (Some (exp_Select expressions))) index) (\<lambda>(this, index).
        and_then (self (P_join this) index) (\<lambda>(this, index).
        and_then (self (P_where this) index) (\<lambda>(this, index).
        and_then (self (P_group this) index) (\<lambda>(this, index).
        and_then (self (P_having this) index) (\<lambda>(this, index).
        and_then (self (P_order this) index) (\<lambda>(this, index).
        self (P_union this) index))))))))"

definition parse_from :: "nat \<Rightarrow> self \<Rightarrow> token list \<Rightarrow> node option \<Rightarrow> int \<Rightarrow> parsed" where
  "parse_from n self tokens this index =
     (let (m, index) = match [T_FROM] tokens index in
      if \<not> m then Return (this, index)
      else
        and_then (self P_table index) (\<lambda>(table, index).
        Return (Some (exp_From table this), index)))"

definition parse_join :: "nat \<Rightarrow> self \<Rightarrow> token list \<Rightarrow> node option \<Rightarrow> int \<Rightarrow> parsed" where
  "parse_join n self tokens this index =
     (let (m, index) = match [T_LEFT, T_RIGHT, T_FULL] tokens index;
          side = (if m then prev_node tokens index else None);
          (m, index) = match [T_INNER, T_OUTER, T_CROSS] tokens index;
          kind = (if m then prev_node tokens index else None);
          (m, index) = match [T_JOIN] tokens index in
      if m then
        and_then (self P_table index) (\<lambda>(expression, index).
        (let (m, index) = match [T_ON] tokens index in
         and_then (if m then self P_expression index else Return (None, index)) (\<lambda>(on, index).
         self (P_join (Some (exp_Join expression this side kind on))) index)))
      else Return (this, index))"

definition parse_table :: "nat \<Rightarrow> self \<Rightarrow> token list \<Rightarrow> int \<Rightarrow> parsed" where
  "parse_table n self tokens index =
     (let (m, index) = match [T_L_PAREN] tokens index in
      if m then
        and_then (self P_select index) (\<lambda>(nested, index).
        (let (m, index) = match [T_R_PAREN] tokens index in
         if \<not> m then Raise (ValueError ''Expecting )'')
         else Return (parse_alias tokens nested index)))
      else
        (let (m, index) = match [T_VAR, T_IDENTIFIER] tokens index;
             table = (if m then prev_node tokens index else None);
             (m, index) = match [T_DOT] tokens index in
         if m then
           (let db = table;
                (m, index) = match [T_VAR, T_IDENTIFIER] tokens index in
            if \<not> m then Raise (ValueError ''Expected table name'')
            else
              Return (parse_alias tokens (Some (exp_Table (prev_node tokens index) db)) index))
         else Return (parse_alias tokens (Some (exp_Table table None)) index)))"

definition parse_where :: "nat \<Rightarrow> self \<Rightarrow> token list \<Rightarrow> node option \<Rightarrow> int \<Rightarrow> parsed" where
  "parse_where n self tokens this index =
     (let (m, index) = match [T_WHERE] tokens index in
      if \<not> m then Return (this, index)
      else
        and_then (self P_conjunction index) (\<lambda>(expression, index).
        Return (Some (exp_Where this expression), index)))"

definition parse_group :: "nat \<Rightarrow> self \<Rightarrow> token list \<Rightarrow> node option \<Rightarrow> int \<Rightarrow> parsed" where
  "parse_group n self tokens this index =
     (let (m, index) = match [T_GROUP] tokens index in
      if \<not> m then Return (this, index)
      else
        (let (m, index) = match [T_BY] tokens index in
         if \<not> m then Raise (ValueError ''Expecting BY'')
         else
           and_then (parse_csv n (self P_primary) tokens index) (\<lambda>(expressions, index).
           Return (Some (exp_Group this expressions), index))))"

definition parse_having :: "nat \<Rightarrow> self \<Rightarrow> token list \<Rightarrow> node option \<Rightarrow> int \<Rightarrow> parsed" where
  "parse_having n self tokens this index =
     (let (m, index) = match [T_HAVING] tokens index in
      if \<not> m then Return (this, index)
      else
        and_then (self P_conjunction index) (\<lambda>(expression, index).
        Return (Some (exp_Having this expression), index)))"

definition parse_order :: "nat \<Rightarrow> self \<Rightarrow> token list \<Rightarrow> node option \<Rightarrow> int \<Rightarrow> parsed" where
  "parse_order n self tokens this index =
     (let (m, index) = match [T_ORDER] tokens index in
      if \<not> m then Return (this, index)
      else
        (let (m, index) = match [T_BY] tokens index in
         if \<not> m then Raise (ValueError ''Expecting BY'')
         else
           and_then (parse_csv n (self P_primary) tokens index) (\<lambda>(expressions, index).
           (let (desc, index) = match [T_DESC] tokens index in
            Return (Some (exp_Order this expressions desc), index)))))"

definition parse_union :: "nat \<Rightarrow> self \<Rightarrow> token list \<Rightarrow> node option \<Rightarrow> int \<Rightarrow> parsed" where
  "parse_union n self tokens this index =
     (let (m, index) = match [T_UNION] tokens index in
      if \<not> m then Return (this, index)
      else
        (let (m, index) = match [T_ALL] tokens index;
             distinct' = (\<not> m) in
         and_then (self P_select index) (\<lambda>(expression, index).
         Return (Some (exp_Union this expression distinct'), index))))"

subsection \<open>The precedence chain\<close>

definition parse_expression :: "nat \<Rightarrow> self \<Rightarrow> token list \<Rightarrow> int \<Rightarrow> parsed" where
  "parse_expression n self tokens index =
     and_then (self P_conjunction index) (\<lambda>(this, index).
     and_then (self (P_window this) index) (\<lambda>(this, index).
     Return (parse_alias tokens this index)))"

definition parse_conjunction :: "nat \<Rightarrow> self \<Rightarrow> token list \<Rightarrow> int \<Rightarrow> parsed" where
  "parse_conjunction n self tokens index =
     parse_tokens n (self P_equality) [exp_And, exp_Or] tokens index"

definition parse_equality :: "nat \<Rightarrow> self \<Rightarrow> token list \<Rightarrow> int \<Rightarrow> parsed" where
  "parse_equality n self tokens index =
     parse_tokens n (self P_comparison) [exp_EQ, exp_NEQ, exp_Is] tokens index"

definition parse_comparison :: "nat \<Rightarrow> self \<Rightarrow> token list \<Rightarrow> int \<Rightarrow> parsed" where
  "parse_comparison n self tokens index =
     parse_tokens n (self P_range) [exp_GT, exp_GTE, exp_LT, exp_LTE] tokens index"

definition parse_range :: "nat \<Rightarrow> self \<Rightarrow> token list \<Rightarrow> int \<Rightarrow> parsed" where
  "parse_range n self tokens index =
     and_then (self P_term index) (\<lambda>(this, index).
     (let (m, index) = match [T_IN] tokens index in
      if m then
        (let (m, index) = match [T_L_PAREN] tokens index in
         if \<not> m then Raise (ValueError ''Expected ( after IN'')
         else
           and_then (parse_csv n (self P_primary) tokens index) (\<lambda>(expressions, index).
           (let (m, index) = match [T_R_PAREN] tokens index in
            if \<not> m then Raise (ValueError ''Expected ) after IN'')
            else Return (Some (exp_In this expressions), index))))
      else
        (let (m, index) = match [T_BETWEEN] tokens index in
         if m then
           and_then (self P_primary index) (\<lambda>(low, index).
           (let (_, index) = match [T_AND] tokens index in
            and_then (self P_primary index) (\<lambda>(high, index).
            Return (Some (exp_Between this low high), index))))
         else Return (this, index))))"

definition parse_term :: "nat \<Rightarrow> self \<Rightarrow> token list \<Rightarrow> int \<Rightarrow> parsed" where
  "parse_term n self tokens index =
     parse_tokens n (self P_factor) [exp_Minus, exp_Plus] tokens index"

definition parse_factor :: "nat \<Rightarrow> self \<Rightarrow> token list \<Rightarrow> int \<Rightarrow> parsed" where
  "parse_factor n self tokens index =
     parse_tokens n (self P_unary) [exp_Slash, exp_Star] tokens index"

definition parse_unary :: "nat \<Rightarrow> self \<Rightarrow> token list \<Rightarrow> int \<Rightarrow> parsed" where
  "parse_unary n self tokens index =
     (let (m, index) = match [T_NOT] tokens index in
      if m then
        and_then (self P_unary index) (\<lambda>(this, index). Return (Some (exp_Not this), index))
      else
        (let (m, index) = match [T_DASH] tokens index in
         if m then
           and_then (self P_unary index) (\<lambda>(this, index). Return (Some (exp_Neg this), index))
         else self P_special index))"

definition parse_special :: "nat \<Rightarrow> self \<Rightarrow> token list \<Rightarrow> int \<Rightarrow> parsed" where
  "parse_special n self tokens index =
     (let (m, index) = match [T_CAST] tokens index in
      if m then self P_cast index
      else
        (let (m, index) = match [T_CASE] tokens index in
         if m then self P_case index
         else
           (let (m, index) = match [T_COUNT] tokens index in
            if m then self P_count index
            else self P_primary index)))"

fun parse_case_while ::
  "nat \<Rightarrow> self \<Rightarrow> token list \<Rightarrow> node option list \<Rightarrow> int \<Rightarrow> (node option list \<times> int) outcome" where
  "parse_case_while 0 self tokens ifs index = OutOfFuel"
| "parse_case_while (Suc n) self tokens ifs index =
     (let (m, index) = match [T_WHEN] tokens index in
      if m then
        and_then (self P_expression index) (\<lambda>(condition, index).
        (let (_, index) = match [T_THEN] tokens index in
         and_then (self P_expression index) (\<lambda>(then', index).
         parse_case_while n self tokens (ifs @ [Some (exp_If condition then' None)]) index)))
      else Return (ifs, index))"

definition parse_case :: "nat \<Rightarrow> self \<Rightarrow> token list \<Rightarrow> int \<Rightarrow> parsed" where
  "parse_case n self tokens index =
     and_then (parse_case_while n self tokens [] index) (\<lambda>(ifs, index).
     (let (m, index) = match [T_ELSE] tokens index in
      and_then (if m then self P_expression index else Return (None, index)) (\<lambda>(default', index).
      (let (m, index) = match [T_END] tokens index in
       if \<not> m then Raise (ValueError ''Expected END after CASE'')
       else Return (Some (exp_Case ifs default'), index)))))"

definition parse_count :: "nat \<Rightarrow> self \<Rightarrow> token list \<Rightarrow> int \<Rightarrow> parsed" where
  "parse_count n self tokens index =
     (let (m, index) = match [T_L_PAREN] tokens index in
      if \<not> m then Raise (ValueError ''Expected ( after COUNT'')
      else
        (let (distinct', index) = match [T_DISTINCT] tokens index in
         and_then (self P_conjunction index) (\<lambda>(this, index).
         (let (m, index) = match [T_R_PAREN] tokens index in
          if \<not> m then Raise (ValueError ''Expected ) after COUNT'')
          else Return (Some (exp_Count this distinct'), index)))))"

definition parse_cast :: "nat \<Rightarrow> self \<Rightarrow> token list \<Rightarrow> int \<Rightarrow> parsed" where
  "parse_cast n self tokens index =
     (let (m, index) = match [T_L_PAREN] tokens index in
      if \<not> m then Raise (ValueError ''Expected ( after CAST'')
      else
        and_then (self P_conjunction index) (\<lambda>(this, index).
        (let (m, index) = match [T_ALIAS] tokens index in
         if \<not> m then Raise (ValueError ''Expected AS after CAST'')
         else
           (let (m, index) = match TYPE_TOKENS tokens index in
            if \<not> m then Raise (ValueError ''Expected type after CAST'')
            else
              (let to = prev_node tokens index;
                   (m, index) = match [T_R_PAREN] tokens index in
               if \<not> m then Raise (ValueError ''Expected ) after CAST'')
               else Return (Some (exp_Cast this to), index))))))"

definition parse_primary :: "nat \<Rightarrow> self \<Rightarrow> token list \<Rightarrow> int \<Rightarrow> parsed" where
  "parse_primary n self tokens index =
     (let (m, index) = match [T_STRING, T_NUMBER, T_STAR, T_NULL] tokens index in
      if m then Return (prev_node tokens index, index)
      else
        (let (m, index) = match [T_L_PAREN] tokens index in
         if m then
           and_then (self P_expression index) (\<lambda>(this, index).
           (let (m, index) = match [T_R_PAREN] tokens index in
            if \<not> m then Raise (ValueError ''Expecting )'')
            else Return (Some (exp_Paren this), index)))
         else self P_column index))"

definition parse_column ::
  "nat \<Rightarrow> self \<Rightarrow> (string \<rightharpoonup> builder) \<Rightarrow> token list \<Rightarrow> int \<Rightarrow> parsed" where
  "parse_column n self functions tokens index =
     (let (m, index) = match [T_VAR, T_IDENTIFIER] tokens index in
      if \<not> m then Return (None, index)
      else
        (case prev tokens index of
           None \<Rightarrow> Raise AttributeError
         | Some this \<Rightarrow>
             (let (m, index) = match [T_L_PAREN] tokens index in
              if m then
                (if token_type this = T_IDENTIFIER then Raise (ValueError ''Unexpected ('')
                 else
                   (case functions (upper (token_text this)) of
                      None \<Rightarrow> Raise (Unrecognized_function_name this)
                    | Some function \<Rightarrow>
                        and_then (parse_csv n (self P_expression) tokens index) (\<lambda>(args, index).
                        (case function args of
                           Inl e \<Rightarrow> Raise e
                         | Inr function \<Rightarrow>
                             (let (m, index) = match [T_R_PAREN] tokens index in
                              if \<not> m then Raise (Expected_rparen_after_function this)
                              else Return (function, index))))))
              else
                (let (m, index) = match [T_DOT] tokens index in
                 if m then
                   (let table = Some (Tok this);
                        (m, index) = match COLUMN_TOKENS tokens index in
                    if \<not> m then Raise (ValueError ''Expected column name'')
                    else
                      (let this = prev_node tokens index;
                           (m, index) = match [T_DOT] tokens index in
                       if m then
                         (let db = table;
                              table = this;
                              (m, index) = match COLUMN_TOKENS tokens index in
                          if \<not> m then Raise (ValueError ''Expected column name'')
                          else
                            self (P_brackets (Some (exp_Column (prev_node tokens index) db table)))
                              index)
                       else self (P_brackets (Some (exp_Column this None table))) index))
                 else
                   self (P_brackets (Some (exp_Column (Some (Tok this)) None None))) index))))"

definition parse_brackets :: "nat \<Rightarrow> self \<Rightarrow> token list \<Rightarrow> node option \<Rightarrow> int \<Rightarrow> parsed" where
  "parse_brackets n self tokens this index =
     (let (m, index) = match [T_L_BRACKET] tokens index in
      if \<not> m then Return (this, index)
      else
        and_then (parse_csv n (self P_primary) tokens index) (\<lambda>(expressions, index).
        (let (m, index) = match [T_R_BRACKET] tokens index in
         if \<not> m then Raise (Expected_rbracket_after this)
         else Return (Some (exp_Bracket this expressions), index))))"

definition parse_window :: "nat \<Rightarrow> self \<Rightarrow> token list \<Rightarrow> node option \<Rightarrow> int \<Rightarrow> parsed" where
  "parse_window n self tokens this index =
     (let (m, index) = match [T_OVER] tokens index in
      if \<not> m then Return (this, index)
      else
        (let (m, index) = match [T_L_PAREN] tokens index in
         if \<not> m then Raise (ValueError ''Expecting ( after OVER'')
         else
           (let (m, index) = match [T_PARTITION] tokens index in
            and_then
              (if m then
                 (let (m, index) = match [T_BY] tokens index in
                  if \<not> m then Raise (ValueError ''Expecting BY after PARTITION'')
                  else
                    and_then (parse_csv n (self P_primary) tokens index) (\<lambda>(expressions, index).
                    Return (Some expressions, index)))
               else Return (None, index))
              (\<lambda>(partition', index).
                 and_then (self (P_order None) index) (\<lambda>(order', index).
                 (let (m, index) = match [T_R_PAREN] tokens index in
                  if \<not> m then Raise (ValueError ''Expecting )'')
                  else Return (Some (exp_Window this partition' order'), index)))))))"

subsection \<open>Tying the methods together\<close>

text \<open>
  \<open>call n functions tokens p index\<close> runs the method \<open>p\<close> with \<open>n\<close> further levels of
  recursion allowed; each method receives the parser one level down as its \<open>self\<close>.
\<close>

primrec call :: "nat \<Rightarrow> (string \<rightharpoonup> builder) \<Rightarrow> token list \<Rightarrow> production \<Rightarrow> int \<Rightarrow> parsed" where
  "call 0 functions tokens p index = OutOfFuel"
| "call (Suc n) functions tokens p index =
     (case p of
        P_statement \<Rightarrow> parse_statement n (call n functions tokens) tokens index
      | P_cte \<Rightarrow> parse_cte n (call n functions tokens) tokens index
      | P_select \<Rightarrow> parse_select n (call n functions tokens) tokens index
      | P_from this \<Rightarrow> parse_from n (call n functions tokens) tokens this index
      | P_join this \<Rightarrow> parse_join n (call n functions tokens) tokens this index
      | P_table \<Rightarrow> parse_table n (call n functions tokens) tokens index
      | P_where this \<Rightarrow> parse_where n (call n functions tokens) tokens this index
      | P_group this \<Rightarrow> parse_group n (call n functions tokens) tokens this index
      | P_having this \<Rightarrow> parse_having n (call n functions tokens) tokens this index
      | P_order this \<Rightarrow> parse_order n (call n functions tokens) tokens this index
      | P_union this \<Rightarrow> parse_union n (call n functions tokens) tokens this index
      | P_expression \<Rightarrow> parse_expression n (call n functions tokens) tokens index
      | P_conjunction \<Rightarrow> parse_conjunction n (call n functions tokens) tokens index
      | P_equality \<Rightarrow> parse_equality n (call n functions tokens) tokens index
      | P_comparison \<Rightarrow> parse_comparison n (call n functions tokens) tokens index
      | P_range \<Rightarrow> parse_range n (call n functions tokens) tokens index
      | P_term \<Rightarrow> parse_term n (call n functions tokens) tokens index
      | P_factor \<Rightarrow> parse_factor n (call n functions tokens) tokens index
      | P_unary \<Rightarrow> parse_unary n (call n functions tokens) tokens index
      | P_special \<Rightarrow> parse_special n (call n functions tokens) tokens index
      | P_case \<Rightarrow> parse_case n (call n functions tokens) tokens index
      | P_count \<Rightarrow> parse_count n (call n functions tokens) tokens index
      | P_cast \<Rightarrow> parse_cast n (call n functions tokens) tokens index
      | P_primary \<Rightarrow> parse_primary n (call n functions tokens) tokens index
      | P_column \<Rightarrow> parse_column n (call n functions tokens) functions tokens index
      | P_brackets this \<Rightarrow> parse_brackets n (call n functions tokens) tokens this index
      | P_window this \<Rightarrow> parse_window n (call n functions tokens) tokens this index)"

section \<open>The entry point\<close>

text \<open>
  The first loop of \<^verbatim>\<open>parse\<close>: a semicolon opens a new chunk, and every token, the
  semicolon included, is appended to the last chunk.  \<open>chunks\<close> starts as \<open>[[]]\<close> and is
  never empty.
\<close>

fun split_chunks :: "token list \<Rightarrow> token list list \<Rightarrow> token list list" where
  "split_chunks [] chunks = chunks"
| "split_chunks (token # raw_tokens) chunks =
     (let chunks = (if token_type token = T_SEMICOLON then chunks @ [[]] else chunks)
      in split_chunks raw_tokens (butlast chunks @ [last chunks @ [token]]))"

text \<open>The second loop: one statement per chunk, and the whole chunk must be consumed.\<close>

fun parse_chunks ::
  "nat \<Rightarrow> (string \<rightharpoonup> builder) \<Rightarrow> token list list \<Rightarrow> node option list
     \<Rightarrow> node option list outcome" where
  "parse_chunks n functions [] expressions = Return expressions"
| "parse_chunks n functions (tokens # chunks) expressions =
     (let index = advance (- 1) in
      case call n functions tokens P_statement index of
        OutOfFuel \<Rightarrow> OutOfFuel
      | Raise e \<Rightarrow> Raise e
      | Return (statement, index) \<Rightarrow>
          if index < int (length tokens) then Raise (Invalid_expression (curr tokens index))
          else parse_chunks n functions chunks (expressions @ [statement]))"

definition parse :: "nat \<Rightarrow> (string \<rightharpoonup> builder) \<Rightarrow> token list \<Rightarrow> node option list outcome" where
  "parse n opts raw_tokens =
     parse_chunks n (Parser_functions opts) (split_chunks raw_tokens [[]]) []"

section \<open>Properties of the cursor\<close>

text \<open>Whether \<^verbatim>\<open>_match\<close> succeeds at a position: the current token exists and has one of the kinds.\<close>

definition looking_at :: "TokenType list \<Rightarrow> token list \<Rightarrow> int \<Rightarrow> bool" where
  "looking_at types tokens index =
     (case curr tokens index of None \<Rightarrow> False | Some c \<Rightarrow> token_type c \<in> set types)"

text \<open>A call started no earlier than \<open>i\<close> ends, when it returns, with the cursor at or after \<open>i\<close>.\<close>

definition ends_after :: "int \<Rightarrow> ('a \<times> int) outcome \<Rightarrow> bool" where
  "ends_after i r \<longleftrightarrow> (\<forall>x j. r = Return (x, j) \<longrightarrow> i \<le> j)"

text \<open>A parse function never moves the cursor backwards.\<close>

definition advancing :: "(int \<Rightarrow> ('a \<times> int) outcome) \<Rightarrow> bool" where
  "advancing f \<longleftrightarrow> (\<forall>i. ends_after i (f i))"

section \<open>Termination\<close>

text \<open>
  The budget a production needs: twelve levels for every token still ahead of the cursor,
  plus the number of productions it can reach without consuming a token.
\<close>

fun rank :: "production \<Rightarrow> nat" where
  "rank P_statement = 2"
| "rank P_primary = 2"
| "rank P_case = 2"
| "rank P_special = 3"
| "rank P_unary = 4"
| "rank P_factor = 5"
| "rank P_term = 6"
| "rank P_range = 7"
| "rank P_comparison = 8"
| "rank P_equality = 9"
| "rank P_conjunction = 10"
| "rank P_expression = 11"
| "rank p = 1"

definition need :: "token list \<Rightarrow> production \<Rightarrow> int \<Rightarrow> nat" where
  "need tokens p i = 12 * nat (int (length tokens) - i) + rank p"

text \<open>The call came to an end within its budget.\<close>

definition finishes :: "'a outcome \<Rightarrow> bool" where
  "finishes r \<longleftrightarrow> r \<noteq> OutOfFuel"

text \<open>An outcome reached within the budget stays the same under a larger budget.\<close>

definition settles :: "'a outcome \<Rightarrow> 'a outcome \<Rightarrow> bool" where
  "settles r r' \<longleftrightarrow> (r \<noteq> OutOfFuel \<longrightarrow> r' = r)"

section \<open>Example inputs\<close>

text \<open>A token with the given kind and text, as the tokenizer would hand it over.\<close>

definition tok :: "TokenType \<Rightarrow> string \<Rightarrow> token" where
  "tok t s = \<lparr>token_type = t, token_text = s, position = 0\<rparr>"

text \<open>The node of a bare column name and of a bare table name.\<close>

definition name_column :: "string \<Rightarrow> node option" where
  "name_column s = Some (exp_Column (Some (Tok (tok T_VAR s))) None None)"

definition name_table :: "string \<Rightarrow> node option" where
  "name_table s = Some (exp_Table (Some (Tok (tok T_VAR s))) None)"

lemma curr_Some_less: "curr tokens i = Some t \<Longrightarrow> i < int (length tokens)"
  by (auto simp: curr_def safe_get_def split: if_splits)

lemma match_eq:
  "match types tokens i = (looking_at types tokens i, if looking_at types tokens i then i + 1 else i)"
  by (simp add: match_def looking_at_def advance_def split: option.splits)

lemma looking_at_less: "looking_at types tokens i \<Longrightarrow> i < int (length tokens)"
  by (auto simp: looking_at_def dest: curr_Some_less split: option.splits)

lemma ends_after_Return: "i \<le> j \<Longrightarrow> ends_after i (Return (x, j))"
  by (simp add: ends_after_def)

lemma ends_after_Raise: "ends_after i (Raise e)"
  by (simp add: ends_after_def)

lemma ends_after_OutOfFuel: "ends_after i OutOfFuel"
  by (simp add: ends_after_def)

lemma ends_after_and_then:
  "ends_after i r \<Longrightarrow> (\<And>x j. i \<le> j \<Longrightarrow> ends_after i (k x j))
   \<Longrightarrow> ends_after i (and_then r (case_prod k))"
  by (cases r) (auto simp: and_then_def ends_after_def)

lemma ends_after_weaken: "i \<le> i' \<Longrightarrow> ends_after i' r \<Longrightarrow> ends_after i r"
  by (auto simp: ends_after_def)

lemma ends_after_call: "advancing f \<Longrightarrow> i \<le> i' \<Longrightarrow> ends_after i (f i')"
  by (auto simp: advancing_def intro: ends_after_weaken)

lemma ends_after_self: "\<forall>p. advancing (self p) \<Longrightarrow> i \<le> i' \<Longrightarrow> ends_after i (self p i')"
  by (auto intro: ends_after_call)

lemma ends_after_alias: "i \<le> i' \<Longrightarrow> ends_after i (Return (parse_alias tokens this i'))"
  by (auto simp: parse_alias_def match_eq Let_def ends_after_def split: if_splits)

lemma ends_after_option:
  "ends_after i a \<Longrightarrow> (\<And>y. ends_after i (b y))
   \<Longrightarrow> ends_after i (case v of None \<Rightarrow> a | Some y \<Rightarrow> b y)"
  by (cases v) auto

lemma ends_after_sum:
  "(\<And>y. ends_after i (a y)) \<Longrightarrow> (\<And>y. ends_after i (b y))
   \<Longrightarrow> ends_after i (case v of Inl y \<Rightarrow> a y | Inr y \<Rightarrow> b y)"
  by (cases v) auto

lemma ends_after_if:
  "(c \<Longrightarrow> ends_after i a) \<Longrightarrow> (\<not> c \<Longrightarrow> ends_after i b) \<Longrightarrow> ends_after i (if c then a else b)"
  by simp

lemma ends_after_csv_while:
  assumes "advancing f"
  shows "i \<le> i' \<Longrightarrow> ends_after i (parse_csv_while n f tokens items i')"
proof (induction n arbitrary: items i')
  case 0 then show ?case by (simp add: ends_after_OutOfFuel)
next
  case (Suc n)
  note call = ends_after_call [OF assms]
  from Suc.prems show ?case
    by (simp add: match_eq)
      (intro conjI impI ends_after_and_then ends_after_Return call Suc.IH | simp)+
qed

lemma ends_after_csv:
  assumes "advancing f"
  shows "i \<le> i' \<Longrightarrow> ends_after i (parse_csv n f tokens i')"
  unfolding parse_csv_def
  by (intro ends_after_and_then ends_after_call [OF assms] ends_after_csv_while [OF assms] | simp)+

lemma ends_after_tokens_while:
  assumes "advancing f"
  shows "i \<le> i' \<Longrightarrow> ends_after i (parse_tokens_while n f es tokens this i')"
proof (induction n arbitrary: this i')
  case 0 then show ?case by (simp add: ends_after_OutOfFuel)
next
  case (Suc n)
  note call = ends_after_call [OF assms]
  from Suc.prems show ?case
    by (simp add: match_eq)
      (intro conjI impI ends_after_and_then ends_after_Return ends_after_option
        ends_after_Raise call Suc.IH | simp)+
qed

lemma ends_after_tokens:
  assumes "advancing f"
  shows "i \<le> i' \<Longrightarrow> ends_after i (parse_tokens n f es tokens i')"
  unfolding parse_tokens_def
  by (intro ends_after_and_then ends_after_call [OF assms] ends_after_tokens_while [OF assms] | simp)+

lemmas ends_after_intros =
  conjI impI ends_after_and_then ends_after_Return ends_after_Raise ends_after_OutOfFuel
  ends_after_alias ends_after_option ends_after_sum ends_after_if
  ends_after_csv ends_after_tokens

lemma ends_after_case_while:
  assumes "\<forall>p. advancing (self p)"
  shows "i \<le> i' \<Longrightarrow> ends_after i (parse_case_while n self tokens ifs i')"
proof (induction n arbitrary: ifs i')
  case 0 then show ?case by (simp add: ends_after_OutOfFuel)
next
  case (Suc n)
  note call = ends_after_self [OF assms]
  from Suc.prems show ?case
    by (simp add: match_eq)
      (intro conjI impI ends_after_and_then ends_after_Return call Suc.IH | simp)+
qed

lemma parse_statement_adv:
  assumes "\<forall>p. advancing (self p)"
  shows "ends_after i (parse_statement n self tokens i)"
  unfolding parse_statement_def match_eq Let_def prod.case
  by (intro ends_after_intros ends_after_self [OF assms] assms [rule_format] | simp)+

lemma parse_cte_adv:
  assumes "\<forall>p. advancing (self p)"
  shows "ends_after i (parse_cte n self tokens i)"
  unfolding parse_cte_def match_eq Let_def prod.case
  by (intro ends_after_intros ends_after_self [OF assms] assms [rule_format] | simp)+

lemma parse_select_adv:
  assumes "\<forall>p. advancing (self p)"
  shows "ends_after i (parse_select n self tokens i)"
  unfolding parse_select_def match_eq Let_def prod.case
  by (intro ends_after_intros ends_after_self [OF assms] assms [rule_format] | simp)+

lemma parse_from_adv:
  assumes "\<forall>p. advancing (self p)"
  shows "ends_after i (parse_from n self tokens this i)"
  unfolding parse_from_def match_eq Let_def prod.case
  by (intro ends_after_intros ends_after_self [OF assms] assms [rule_format] | simp)+

lemma parse_join_adv:
  assumes "\<forall>p. advancing (self p)"
  shows "ends_after i (parse_join n self tokens this i)"
  unfolding parse_join_def match_eq Let_def prod.case
  by (intro ends_after_intros ends_after_self [OF assms] assms [rule_format] | simp)+

lemma parse_table_adv:
  assumes "\<forall>p. advancing (self p)"
  shows "ends_after i (parse_table n self tokens i)"
  unfolding parse_table_def match_eq Let_def prod.case
  by (intro ends_after_intros ends_after_self [OF assms] assms [rule_format] | simp)+

lemma parse_where_adv:
  assumes "\<forall>p. advancing (self p)"
  shows "ends_after i (parse_where n self tokens this i)"
  unfolding parse_where_def match_eq Let_def prod.case
  by (intro ends_after_intros ends_after_self [OF assms] assms [rule_format] | simp)+

lemma parse_group_adv:
  assumes "\<forall>p. advancing (self p)"
  shows "ends_after i (parse_group n self tokens this i)"
  unfolding parse_group_def match_eq Let_def prod.case
  by (intro ends_after_intros ends_after_self [OF assms] assms [rule_format] | simp)+

lemma parse_having_adv:
  assumes "\<forall>p. advancing (self p)"
  shows "ends_after i (parse_having n self tokens this i)"
  unfolding parse_having_def match_eq Let_def prod.case
  by (intro ends_after_intros ends_after_self [OF assms] assms [rule_format] | simp)+

lemma parse_order_adv:
  assumes "\<forall>p. advancing (self p)"
  shows "ends_after i (parse_order n self tokens this i)"
  unfolding parse_order_def match_eq Let_def prod.case
  by (intro ends_after_intros ends_after_self [OF assms] assms [rule_format] | simp)+

lemma parse_union_adv:
  assumes "\<forall>p. advancing (self p)"
  shows "ends_after i (parse_union n self tokens this i)"
  unfolding parse_union_def match_eq Let_def prod.case
  by (intro ends_after_intros ends_after_self [OF assms] assms [rule_format] | simp)+

lemma parse_expression_adv:
  assumes "\<forall>p. advancing (self p)"
  shows "ends_after i (parse_expression n self tokens i)"
  unfolding parse_expression_def match_eq Let_def prod.case
  by (intro ends_after_intros ends_after_self [OF assms] assms [rule_format] | simp)+

lemma parse_conjunction_adv:
  assumes "\<forall>p. advancing (self p)"
  shows "ends_after i (parse_conjunction n self tokens i)"
  unfolding parse_conjunction_def match_eq Let_def prod.case
  by (intro ends_after_intros ends_after_self [OF assms] assms [rule_format] | simp)+

lemma parse_equality_adv:
  assumes "\<forall>p. advancing (self p)"
  shows "ends_after i (parse_equality n self tokens i)"
  unfolding parse_equality_def match_eq Let_def prod.case
  by (intro ends_after_intros ends_after_self [OF assms] assms [rule_format] | simp)+

lemma parse_comparison_adv:
  assumes "\<forall>p. advancing (self p)"
  shows "ends_after i (parse_comparison n self tokens i)"
  unfolding parse_comparison_def match_eq Let_def prod.case
  by (intro ends_after_intros ends_after_self [OF assms] assms [rule_format] | simp)+

lemma parse_range_adv:
  assumes "\<forall>p. advancing (self p)"
  shows "ends_after i (parse_range n self tokens i)"
  unfolding parse_range_def match_eq Let_def prod.case
  by (intro ends_after_intros ends_after_self [OF assms] assms [rule_format] | simp)+

lemma parse_term_adv:
  assumes "\<forall>p. advancing (self p)"
  shows "ends_after i (parse_term n self tokens i)"
  unfolding parse_term_def match_eq Let_def prod.case
  by (intro ends_after_intros ends_after_self [OF assms] assms [rule_format] | simp)+

lemma parse_factor_adv:
  assumes "\<forall>p. advancing (self p)"
  shows "ends_after i (parse_factor n self tokens i)"
  unfolding parse_factor_def match_eq Let_def prod.case
  by (intro ends_after_intros ends_after_self [OF assms] assms [rule_format] | simp)+

lemma parse_unary_adv:
  assumes "\<forall>p. advancing (self p)"
  shows "ends_after i (parse_unary n self tokens i)"
  unfolding parse_unary_def match_eq Let_def prod.case
  by (intro ends_after_intros ends_after_self [OF assms] assms [rule_format] | simp)+

lemma parse_special_adv:
  assumes "\<forall>p. advancing (self p)"
  shows "ends_after i (parse_special n self tokens i)"
  unfolding parse_special_def match_eq Let_def prod.case
  by (intro ends_after_intros ends_after_self [OF assms] assms [rule_format] | simp)+

lemma parse_count_adv:
  assumes "\<forall>p. advancing (self p)"
  shows "ends_after i (parse_count n self tokens i)"
  unfolding parse_count_def match_eq Let_def prod.case
  by (intro ends_after_intros ends_after_self [OF assms] assms [rule_format] | simp)+

lemma parse_cast_adv:
  assumes "\<forall>p. advancing (self p)"
  shows "ends_after i (parse_cast n self tokens i)"
  unfolding parse_cast_def match_eq Let_def prod.case
  by (intro ends_after_intros ends_after_self [OF assms] assms [rule_format] | simp)+

lemma parse_primary_adv:
  assumes "\<forall>p. advancing (self p)"
  shows "ends_after i (parse_primary n self tokens i)"
  unfolding parse_primary_def match_eq Let_def prod.case
  by (intro ends_after_intros ends_after_self [OF assms] assms [rule_format] | simp)+

lemma parse_brackets_adv:
  assumes "\<forall>p. advancing (self p)"
  shows "ends_after i (parse_brackets n self tokens this i)"
  unfolding parse_brackets_def match_eq Let_def prod.case
  by (intro ends_after_intros ends_after_self [OF assms] assms [rule_format] | simp)+

lemma parse_window_adv:
  assumes "\<forall>p. advancing (self p)"
  shows "ends_after i (parse_window n self tokens this i)"
  unfolding parse_window_def match_eq Let_def prod.case
  by (intro ends_after_intros ends_after_self [OF assms] assms [rule_format] | simp)+

lemma parse_case_adv:
  assumes "\<forall>p. advancing (self p)"
  shows "ends_after i (parse_case n self tokens i)"
  unfolding parse_case_def match_eq Let_def prod.case
  by (intro ends_after_intros ends_after_self [OF assms] ends_after_case_while [OF assms]
        assms [rule_format] | simp)+

lemma parse_column_adv:
  assumes "\<forall>p. advancing (self p)"
  shows "ends_after i (parse_column n self fs tokens i)"
  unfolding parse_column_def match_eq Let_def prod.case
  by (intro ends_after_intros ends_after_self [OF assms] assms [rule_format] | simp)+

lemmas parse_adv =
  parse_statement_adv parse_cte_adv parse_select_adv parse_from_adv parse_join_adv parse_table_adv parse_where_adv parse_group_adv parse_having_adv parse_order_adv parse_union_adv parse_expression_adv parse_conjunction_adv parse_equality_adv parse_comparison_adv parse_range_adv parse_term_adv parse_factor_adv parse_unary_adv parse_special_adv parse_count_adv parse_cast_adv parse_primary_adv parse_brackets_adv parse_window_adv parse_case_adv parse_column_adv

lemma call_advancing: "\<forall>p. advancing (call n fs tokens p)"
proof (induction n)
  case 0
  show ?case by (simp add: advancing_def ends_after_OutOfFuel)
next
  case (Suc n)
  show ?case
  proof
    fix p
    show "advancing (call (Suc n) fs tokens p)"
      unfolding advancing_def
      by (cases p) (simp_all add: parse_adv [OF Suc])
  qed
qed

lemma call_index_le: "call n fs tokens p i = Return (x, j) \<Longrightarrow> i \<le> j"
  using call_advancing [of n fs tokens] by (auto simp: advancing_def ends_after_def)

lemma finishes_Return: "finishes (Return x)"
  by (simp add: finishes_def)

lemma finishes_Raise: "finishes (Raise e)"
  by (simp add: finishes_def)

lemma finishes_and_then:
  "finishes r \<Longrightarrow> (\<And>x j. r = Return (x, j) \<Longrightarrow> finishes (k x j))
   \<Longrightarrow> finishes (and_then r (case_prod k))"
  by (cases r) (auto simp: and_then_def finishes_def)

lemma finishes_option:
  "finishes a \<Longrightarrow> (\<And>y. v = Some y \<Longrightarrow> finishes (b y))
   \<Longrightarrow> finishes (case v of None \<Rightarrow> a | Some y \<Rightarrow> b y)"
  by (cases v) auto

lemma finishes_sum:
  "(\<And>y. finishes (a y)) \<Longrightarrow> (\<And>y. finishes (b y))
   \<Longrightarrow> finishes (case v of Inl y \<Rightarrow> a y | Inr y \<Rightarrow> b y)"
  by (cases v) auto

lemma finishes_if:
  "(c \<Longrightarrow> finishes a) \<Longrightarrow> (\<not> c \<Longrightarrow> finishes b) \<Longrightarrow> finishes (if c then a else b)"
  by simp

lemma and_then_Return_iff:
  "and_then r k = Return y \<longleftrightarrow> (\<exists>x. r = Return x \<and> k x = Return y)"
  by (cases r) (simp_all add: and_then_def)

lemmas finishes_intros =
  finishes_Return finishes_Raise finishes_and_then finishes_option finishes_sum finishes_if

lemma rank_bounds: "1 \<le> rank p" "rank p \<le> 11"
  by (cases p; simp)+

lemma need_consumed:
  "i < int (length tokens) \<Longrightarrow> i + 1 \<le> j \<Longrightarrow> need tokens q j < need tokens p i"
  using rank_bounds [of p] rank_bounds [of q] by (simp add: need_def)

lemma need_antitone: "i \<le> j \<Longrightarrow> need tokens p j \<le> need tokens p i"
  by (simp add: need_def)

lemma csv_index_le:
  "parse_csv n (call m fs tokens p) tokens i = Return (xs, j) \<Longrightarrow> i \<le> j"
  using ends_after_csv [of "call m fs tokens p" i i n tokens] call_advancing [of m fs tokens]
  by (auto simp: ends_after_def)

lemma finishes_csv_while:
  assumes IH: "\<And>p i. need tokens p i \<le> n \<Longrightarrow> finishes (call n fs tokens p i)"
  shows "need tokens p i \<le> n \<Longrightarrow> nat (int (length tokens) - i) < m
    \<Longrightarrow> finishes (parse_csv_while m (call n fs tokens p) tokens items i)"
proof (induction m arbitrary: items i)
  case 0 then show ?case by simp
next
  case (Suc m)
  show ?case
  proof (cases "looking_at [T_COMMA] tokens i")
    case False
    then show ?thesis by (simp add: match_eq finishes_Return)
  next
    case True
    then have less: "i < int (length tokens)" by (rule looking_at_less)
    have "need tokens p (i + 1) \<le> n"
      using need_antitone [of i "i + 1" tokens p] Suc.prems(1) by simp
    then have fin: "finishes (call n fs tokens p (i + 1))" by (rule IH)
    have "finishes (parse_csv_while m (call n fs tokens p) tokens (items @ [x]) j)"
      if "call n fs tokens p (i + 1) = Return (x, j)" for x j
    proof -
      from that have "i + 1 \<le> j" by (rule call_index_le)
      then have "need tokens p j \<le> n" "nat (int (length tokens) - j) < m"
        using need_antitone [of i j tokens p] Suc.prems less by auto
      then show ?thesis by (rule Suc.IH)
    qed
    with fin show ?thesis using True
      by (simp add: match_eq) (intro finishes_and_then; simp)
  qed
qed

lemma need_budget: "need tokens p i \<le> n \<Longrightarrow> nat (int (length tokens) - i) < n"
  using rank_bounds [of p] by (simp add: need_def)

lemma finishes_csv:
  assumes IH: "\<And>p i. need tokens p i \<le> n \<Longrightarrow> finishes (call n fs tokens p i)"
  shows "need tokens p i \<le> n \<Longrightarrow> finishes (parse_csv n (call n fs tokens p) tokens i)"
  unfolding parse_csv_def
proof (intro finishes_and_then)
  assume a: "need tokens p i \<le> n"
  then show "finishes (call n fs tokens p i)" by (rule IH)
  fix x j assume "call n fs tokens p i = Return (x, j)"
  then have "i \<le> j" by (rule call_index_le)
  with a have "need tokens p j \<le> n" using need_antitone [of i j tokens p] by simp
  then show "finishes (parse_csv_while n (call n fs tokens p) tokens [x] j)"
    by (intro finishes_csv_while IH need_budget)
qed

lemma finishes_tokens_while:
  assumes IH: "\<And>p i. need tokens p i \<le> n \<Longrightarrow> finishes (call n fs tokens p i)"
  shows "need tokens p i \<le> n \<Longrightarrow> nat (int (length tokens) - i) < m
    \<Longrightarrow> finishes (parse_tokens_while m (call n fs tokens p) es tokens this i)"
proof (induction m arbitrary: this i)
  case 0 then show ?case by simp
next
  case (Suc m)
  show ?case
  proof (cases "looking_at (map binary_token_type es) tokens i")
    case False
    then show ?thesis by (simp add: match_eq finishes_Return)
  next
    case True
    then have less: "i < int (length tokens)" by (rule looking_at_less)
    have "need tokens p (i + 1) \<le> n"
      using need_antitone [of i "i + 1" tokens p] Suc.prems(1) by simp
    then have fin: "finishes (call n fs tokens p (i + 1))" by (rule IH)
    have "finishes (parse_tokens_while m (call n fs tokens p) es tokens z j)"
      if "call n fs tokens p (i + 1) = Return (x, j)" for x j z
    proof -
      from that have "i + 1 \<le> j" by (rule call_index_le)
      then have "need tokens p j \<le> n" "nat (int (length tokens) - j) < m"
        using need_antitone [of i j tokens p] Suc.prems less by auto
      then show ?thesis by (rule Suc.IH)
    qed
    with fin show ?thesis using True
      by (simp add: match_eq)
        (intro finishes_option finishes_Raise finishes_and_then; simp)
  qed
qed

lemma finishes_tokens:
  assumes IH: "\<And>p i. need tokens p i \<le> n \<Longrightarrow> finishes (call n fs tokens p i)"
  shows "need tokens p i \<le> n \<Longrightarrow> finishes (parse_tokens n (call n fs tokens p) es tokens i)"
  unfolding parse_tokens_def
proof (intro finishes_and_then)
  assume a: "need tokens p i \<le> n"
  then show "finishes (call n fs tokens p i)" by (rule IH)
  fix x j assume "call n fs tokens p i = Return (x, j)"
  then have "i \<le> j" by (rule call_index_le)
  with a have "need tokens p j \<le> n" using need_antitone [of i j tokens p] by simp
  then show "finishes (parse_tokens_while n (call n fs tokens p) es tokens x j)"
    by (intro finishes_tokens_while IH need_budget)
qed

lemma case_while_index_le:
  "parse_case_while m (call n fs tokens) tokens ifs i = Return (xs, j) \<Longrightarrow> i \<le> j"
  using ends_after_case_while [OF call_advancing [of n fs tokens], where i = i and i' = i]
  by (auto simp: ends_after_def)

lemma finishes_case_while:
  assumes IH: "\<And>p i. need tokens p i \<le> n \<Longrightarrow> finishes (call n fs tokens p i)"
  shows "12 * nat (int (length tokens) - i) \<le> n \<Longrightarrow> nat (int (length tokens) - i) < m
    \<Longrightarrow> finishes (parse_case_while m (call n fs tokens) tokens ifs i)"
proof (induction m arbitrary: ifs i)
  case 0 then show ?case by simp
next
  case (Suc m)
  show ?case
  proof (cases "looking_at [T_WHEN] tokens i")
    case False
    then show ?thesis by (simp add: match_eq finishes_Return)
  next
    case True
    then have less: "i < int (length tokens)" by (rule looking_at_less)
    have later: "need tokens P_expression j \<le> n" if "i + 1 \<le> j" for j
      using that less Suc.prems(1) by (simp add: need_def)
    have rest: "finishes (parse_case_while m (call n fs tokens) tokens zs j)"
      if "i + 1 \<le> j" for zs j
      using that less Suc.prems by (intro Suc.IH) auto
    from True show ?thesis
      unfolding parse_case_while.simps match_eq Let_def prod.case
      by (simp, intro finishes_and_then IH later rest impI conjI)
        (auto dest!: call_index_le split: if_splits)
  qed
qed

lemma parse_statement_fin:
  assumes IH: "\<And>p i. need tokens p i \<le> n \<Longrightarrow> finishes (call n fs tokens p i)"
  shows "need tokens P_statement i \<le> Suc n \<Longrightarrow> finishes (parse_statement n (call n fs tokens) tokens i)"
  unfolding parse_statement_def match_eq Let_def prod.case
  by (intro impI conjI finishes_intros IH finishes_csv [OF IH] finishes_tokens [OF IH])
    (auto simp: need_def and_then_Return_iff dest!: call_index_le csv_index_le looking_at_less split: if_splits)

lemma parse_cte_fin:
  assumes IH: "\<And>p i. need tokens p i \<le> n \<Longrightarrow> finishes (call n fs tokens p i)"
  shows "need tokens P_cte i \<le> Suc n \<Longrightarrow> finishes (parse_cte n (call n fs tokens) tokens i)"
  unfolding parse_cte_def match_eq Let_def prod.case
  by (intro impI conjI finishes_intros IH finishes_csv [OF IH] finishes_tokens [OF IH])
    (auto simp: need_def and_then_Return_iff dest!: call_index_le csv_index_le looking_at_less split: if_splits)

lemma parse_select_fin:
  assumes IH: "\<And>p i. need tokens p i \<le> n \<Longrightarrow> finishes (call n fs tokens p i)"
  shows "need tokens P_select i \<le> Suc n \<Longrightarrow> finishes (parse_select n (call n fs tokens) tokens i)"
  unfolding parse_select_def match_eq Let_def prod.case
  by (intro impI conjI finishes_intros IH finishes_csv [OF IH] finishes_tokens [OF IH])
    (auto simp: need_def and_then_Return_iff dest!: call_index_le csv_index_le looking_at_less split: if_splits)

lemma parse_from_fin:
  assumes IH: "\<And>p i. need tokens p i \<le> n \<Longrightarrow> finishes (call n fs tokens p i)"
  shows "need tokens (P_from this) i \<le> Suc n \<Longrightarrow> finishes (parse_from n (call n fs tokens) tokens this i)"
  unfolding parse_from_def match_eq Let_def prod.case
  by (intro impI conjI finishes_intros IH finishes_csv [OF IH] finishes_tokens [OF IH])
    (auto simp: need_def and_then_Return_iff dest!: call_index_le csv_index_le looking_at_less split: if_splits)

lemma parse_join_fin:
  assumes IH: "\<And>p i. need tokens p i \<le> n \<Longrightarrow> finishes (call n fs tokens p i)"
  shows "need tokens (P_join this) i \<le> Suc n \<Longrightarrow> finishes (parse_join n (call n fs tokens) tokens this i)"
  unfolding parse_join_def match_eq Let_def prod.case
  by (intro impI conjI finishes_intros IH finishes_csv [OF IH] finishes_tokens [OF IH])
    (auto simp: need_def and_then_Return_iff dest!: call_index_le csv_index_le looking_at_less split: if_splits)

lemma parse_table_fin:
  assumes IH: "\<And>p i. need tokens p i \<le> n \<Longrightarrow> finishes (call n fs tokens p i)"
  shows "need tokens P_table i \<le> Suc n \<Longrightarrow> finishes (parse_table n (call n fs tokens) tokens i)"
  unfolding parse_table_def match_eq Let_def prod.case
  by (intro impI conjI finishes_intros IH finishes_csv [OF IH] finishes_tokens [OF IH])
    (auto simp: need_def and_then_Return_iff dest!: call_index_le csv_index_le looking_at_less split: if_splits)

lemma parse_where_fin:
  assumes IH: "\<And>p i. need tokens p i \<le> n \<Longrightarrow> finishes (call n fs tokens p i)"
  shows "need tokens (P_where this) i \<le> Suc n \<Longrightarrow> finishes (parse_where n (call n fs tokens) tokens this i)"
  unfolding parse_where_def match_eq Let_def prod.case
  by (intro impI conjI finishes_intros IH finishes_csv [OF IH] finishes_tokens [OF IH])
    (auto simp: need_def and_then_Return_iff dest!: call_index_le csv_index_le looking_at_less split: if_splits)

lemma parse_group_fin:
  assumes IH: "\<And>p i. need tokens p i \<le> n \<Longrightarrow> finishes (call n fs tokens p i)"
  shows "need tokens (P_group this) i \<le> Suc n \<Longrightarrow> finishes (parse_group n (call n fs tokens) tokens this i)"
  unfolding parse_group_def match_eq Let_def prod.case
  by (intro impI conjI finishes_intros IH finishes_csv [OF IH] finishes_tokens [OF IH])
    (auto simp: need_def and_then_Return_iff dest!: call_index_le csv_index_le looking_at_less split: if_splits)

lemma parse_having_fin:
  assumes IH: "\<And>p i. need tokens p i \<le> n \<Longrightarrow> finishes (call n fs tokens p i)"
  shows "need tokens (P_having this) i \<le> Suc n \<Longrightarrow> finishes (parse_having n (call n fs tokens) tokens this i)"
  unfolding parse_having_def match_eq Let_def prod.case
  by (intro impI conjI finishes_intros IH finishes_csv [OF IH] finishes_tokens [OF IH])
    (auto simp: need_def and_then_Return_iff dest!: call_index_le csv_index_le looking_at_less split: if_splits)

lemma parse_order_fin:
  assumes IH: "\<And>p i. need tokens p i \<le> n \<Longrightarrow> finishes (call n fs tokens p i)"
  shows "need tokens (P_order this) i \<le> Suc n \<Longrightarrow> finishes (parse_order n (call n fs tokens) tokens this i)"
  unfolding parse_order_def match_eq Let_def prod.case
  by (intro impI conjI finishes_intros IH finishes_csv [OF IH] finishes_tokens [OF IH])
    (auto simp: need_def and_then_Return_iff dest!: call_index_le csv_index_le looking_at_less split: if_splits)

lemma parse_union_fin:
  assumes IH: "\<And>p i. need tokens p i \<le> n \<Longrightarrow> finishes (call n fs tokens p i)"
  shows "need tokens (P_union this) i \<le> Suc n \<Longrightarrow> finishes (parse_union n (call n fs tokens) tokens this i)"
  unfolding parse_union_def match_eq Let_def prod.case
  by (intro impI conjI finishes_intros IH finishes_csv [OF IH] finishes_tokens [OF IH])
    (auto simp: need_def and_then_Return_iff dest!: call_index_le csv_index_le looking_at_less split: if_splits)

lemma parse_expression_fin:
  assumes IH: "\<And>p i. need tokens p i \<le> n \<Longrightarrow> finishes (call n fs tokens p i)"
  shows "need tokens P_expression i \<le> Suc n \<Longrightarrow> finishes (parse_expression n (call n fs tokens) tokens i)"
  unfolding parse_expression_def match_eq Let_def prod.case
  by (intro impI conjI finishes_intros IH finishes_csv [OF IH] finishes_tokens [OF IH])
    (auto simp: need_def and_then_Return_iff dest!: call_index_le csv_index_le looking_at_less split: if_splits)

lemma parse_conjunction_fin:
  assumes IH: "\<And>p i. need tokens p i \<le> n \<Longrightarrow> finishes (call n fs tokens p i)"
  shows "need tokens P_conjunction i \<le> Suc n \<Longrightarrow> finishes (parse_conjunction n (call n fs tokens) tokens i)"
  unfolding parse_conjunction_def match_eq Let_def prod.case
  by (intro impI conjI finishes_intros IH finishes_csv [OF IH] finishes_tokens [OF IH])
    (auto simp: need_def and_then_Return_iff dest!: call_index_le csv_index_le looking_at_less split: if_splits)

lemma parse_equality_fin:
  assumes IH: "\<And>p i. need tokens p i \<le> n \<Longrightarrow> finishes (call n fs tokens p i)"
  shows "need tokens P_equality i \<le> Suc n \<Longrightarrow> finishes (parse_equality n (call n fs tokens) tokens i)"
  unfolding parse_equality_def match_eq Let_def prod.case
  by (intro impI conjI finishes_intros IH finishes_csv [OF IH] finishes_tokens [OF IH])
    (auto simp: need_def and_then_Return_iff dest!: call_index_le csv_index_le looking_at_less split: if_splits)

lemma parse_comparison_fin:
  assumes IH: "\<And>p i. need tokens p i \<le> n \<Longrightarrow> finishes (call n fs tokens p i)"
  shows "need tokens P_comparison i \<le> Suc n \<Longrightarrow> finishes (parse_comparison n (call n fs tokens) tokens i)"
  unfolding parse_comparison_def match_eq Let_def prod.case
  by (intro impI conjI finishes_intros IH finishes_csv [OF IH] finishes_tokens [OF IH])
    (auto simp: need_def and_then_Return_iff dest!: call_index_le csv_index_le looking_at_less split: if_splits)

lemma parse_range_fin:
  assumes IH: "\<And>p i. need tokens p i \<le> n \<Longrightarrow> finishes (call n fs tokens p i)"
  shows "need tokens P_range i \<le> Suc n \<Longrightarrow> finishes (parse_range n (call n fs tokens) tokens i)"
  unfolding parse_range_def match_eq Let_def prod.case
  by (intro impI conjI finishes_intros IH finishes_csv [OF IH] finishes_tokens [OF IH])
    (auto simp: need_def and_then_Return_iff dest!: call_index_le csv_index_le looking_at_less split: if_splits)

lemma parse_term_fin:
  assumes IH: "\<And>p i. need tokens p i \<le> n \<Longrightarrow> finishes (call n fs tokens p i)"
  shows "need tokens P_term i \<le> Suc n \<Longrightarrow> finishes (parse_term n (call n fs tokens) tokens i)"
  unfolding parse_term_def match_eq Let_def prod.case
  by (intro impI conjI finishes_intros IH finishes_csv [OF IH] finishes_tokens [OF IH])
    (auto simp: need_def and_then_Return_iff dest!: call_index_le csv_index_le looking_at_less split: if_splits)

lemma parse_factor_fin:
  assumes IH: "\<And>p i. need tokens p i \<le> n \<Longrightarrow> finishes (call n fs tokens p i)"
  shows "need tokens P_factor i \<le> Suc n \<Longrightarrow> finishes (parse_factor n (call n fs tokens) tokens i)"
  unfolding parse_factor_def match_eq Let_def prod.case
  by (intro impI conjI finishes_intros IH finishes_csv [OF IH] finishes_tokens [OF IH])
    (auto simp: need_def and_then_Return_iff dest!: call_index_le csv_index_le looking_at_less split: if_splits)

lemma parse_unary_fin:
  assumes IH: "\<And>p i. need tokens p i \<le> n \<Longrightarrow> finishes (call n fs tokens p i)"
  shows "need tokens P_unary i \<le> Suc n \<Longrightarrow> finishes (parse_unary n (call n fs tokens) tokens i)"
  unfolding parse_unary_def match_eq Let_def prod.case
  by (intro impI conjI finishes_intros IH finishes_csv [OF IH] finishes_tokens [OF IH])
    (auto simp: need_def and_then_Return_iff dest!: call_index_le csv_index_le looking_at_less split: if_splits)

lemma parse_special_fin:
  assumes IH: "\<And>p i. need tokens p i \<le> n \<Longrightarrow> finishes (call n fs tokens p i)"
  shows "need tokens P_special i \<le> Suc n \<Longrightarrow> finishes (parse_special n (call n fs tokens) tokens i)"
  unfolding parse_special_def match_eq Let_def prod.case
  by (intro impI conjI finishes_intros IH finishes_csv [OF IH] finishes_tokens [OF IH])
    (auto simp: need_def and_then_Return_iff dest!: call_index_le csv_index_le looking_at_less split: if_splits)

lemma parse_count_fin:
  assumes IH: "\<And>p i. need tokens p i \<le> n \<Longrightarrow> finishes (call n fs tokens p i)"
  shows "need tokens P_count i \<le> Suc n \<Longrightarrow> finishes (parse_count n (call n fs tokens) tokens i)"
  unfolding parse_count_def match_eq Let_def prod.case
  by (intro impI conjI finishes_intros IH finishes_csv [OF IH] finishes_tokens [OF IH])
    (auto simp: need_def and_then_Return_iff dest!: call_index_le csv_index_le looking_at_less split: if_splits)

lemma parse_cast_fin:
  assumes IH: "\<And>p i. need tokens p i \<le> n \<Longrightarrow> finishes (call n fs tokens p i)"
  shows "need tokens P_cast i \<le> Suc n \<Longrightarrow> finishes (parse_cast n (call n fs tokens) tokens i)"
  unfolding parse_cast_def match_eq Let_def prod.case
  by (intro impI conjI finishes_intros IH finishes_csv [OF IH] finishes_tokens [OF IH])
    (auto simp: need_def and_then_Return_iff dest!: call_index_le csv_index_le looking_at_less split: if_splits)

lemma parse_primary_fin:
  assumes IH: "\<And>p i. need tokens p i \<le> n \<Longrightarrow> finishes (call n fs tokens p i)"
  shows "need tokens P_primary i \<le> Suc n \<Longrightarrow> finishes (parse_primary n (call n fs tokens) tokens i)"
  unfolding parse_primary_def match_eq Let_def prod.case
  by (intro impI conjI finishes_intros IH finishes_csv [OF IH] finishes_tokens [OF IH])
    (auto simp: need_def and_then_Return_iff dest!: call_index_le csv_index_le looking_at_less split: if_splits)

lemma parse_brackets_fin:
  assumes IH: "\<And>p i. need tokens p i \<le> n \<Longrightarrow> finishes (call n fs tokens p i)"
  shows "need tokens (P_brackets this) i \<le> Suc n \<Longrightarrow> finishes (parse_brackets n (call n fs tokens) tokens this i)"
  unfolding parse_brackets_def match_eq Let_def prod.case
  by (intro impI conjI finishes_intros IH finishes_csv [OF IH] finishes_tokens [OF IH])
    (auto simp: need_def and_then_Return_iff dest!: call_index_le csv_index_le looking_at_less split: if_splits)

lemma parse_window_fin:
  assumes IH: "\<And>p i. need tokens p i \<le> n \<Longrightarrow> finishes (call n fs tokens p i)"
  shows "need tokens (P_window this) i \<le> Suc n \<Longrightarrow> finishes (parse_window n (call n fs tokens) tokens this i)"
  unfolding parse_window_def match_eq Let_def prod.case
  by (intro impI conjI finishes_intros IH finishes_csv [OF IH] finishes_tokens [OF IH])
    (auto simp: need_def and_then_Return_iff dest!: call_index_le csv_index_le looking_at_less split: if_splits)

lemma parse_case_fin:
  assumes IH: "\<And>p i. need tokens p i \<le> n \<Longrightarrow> finishes (call n fs tokens p i)"
  shows "need tokens P_case i \<le> Suc n \<Longrightarrow> finishes (parse_case n (call n fs tokens) tokens i)"
  unfolding parse_case_def match_eq Let_def prod.case
  by (intro impI conjI finishes_intros IH finishes_case_while [OF IH])
    (auto simp: need_def dest!: call_index_le case_while_index_le looking_at_less split: if_splits)

lemma parse_column_fin:
  assumes IH: "\<And>p i. need tokens p i \<le> n \<Longrightarrow> finishes (call n fs tokens p i)"
  shows "need tokens P_column i \<le> Suc n \<Longrightarrow> finishes (parse_column n (call n fs tokens) fs tokens i)"
  unfolding parse_column_def match_eq Let_def prod.case
  by (intro impI conjI finishes_intros IH finishes_csv [OF IH] finishes_tokens [OF IH])
    (auto simp: need_def and_then_Return_iff dest!: call_index_le csv_index_le looking_at_less split: if_splits)

lemmas parse_fin =
  parse_statement_fin parse_cte_fin parse_select_fin parse_from_fin parse_join_fin parse_table_fin parse_where_fin parse_group_fin parse_having_fin parse_order_fin parse_union_fin parse_expression_fin parse_conjunction_fin parse_equality_fin parse_comparison_fin parse_range_fin parse_term_fin parse_factor_fin parse_unary_fin parse_special_fin parse_count_fin parse_cast_fin parse_primary_fin parse_brackets_fin parse_window_fin parse_case_fin parse_column_fin

lemma call_finishes: "need tokens p i \<le> n \<Longrightarrow> finishes (call n fs tokens p i)"
proof (induction n arbitrary: p i)
  case 0
  then show ?case using rank_bounds(1) [of p] by (simp add: need_def)
next
  case (Suc n)
  from Suc.prems show ?case
    by (cases p) (simp_all add: parse_fin [OF Suc.IH])
qed

lemma settles_refl: "settles r r"
  by (simp add: settles_def)

lemma settles_and_then:
  "settles r r' \<Longrightarrow> (\<And>x j. r = Return (x, j) \<Longrightarrow> settles (k x j) (k' x j))
   \<Longrightarrow> settles (and_then r (case_prod k)) (and_then r' (case_prod k'))"
  by (cases r) (auto simp: and_then_def settles_def)

lemma settles_if:
  "(c \<Longrightarrow> settles a a') \<Longrightarrow> (\<not> c \<Longrightarrow> settles b b')
   \<Longrightarrow> settles (if c then a else b) (if c then a' else b')"
  by simp

lemma settles_option:
  "settles a a' \<Longrightarrow> (\<And>y. settles (b y) (b' y))
   \<Longrightarrow> settles (case v of None \<Rightarrow> a | Some y \<Rightarrow> b y) (case v of None \<Rightarrow> a' | Some y \<Rightarrow> b' y)"
  by (cases v) auto

lemma settles_sum:
  "(\<And>y. settles (a y) (a' y)) \<Longrightarrow> (\<And>y. settles (b y) (b' y))
   \<Longrightarrow> settles (case v of Inl y \<Rightarrow> a y | Inr y \<Rightarrow> b y) (case v of Inl y \<Rightarrow> a' y | Inr y \<Rightarrow> b' y)"
  by (cases v) auto

lemmas settles_intros =
  settles_and_then settles_if settles_option settles_sum settles_refl

lemma settles_csv_while:
  assumes "\<And>i. settles (f i) (f' i)"
  shows "settles (parse_csv_while m f tokens items i) (parse_csv_while (Suc m) f' tokens items i)"
proof (induction m arbitrary: items i)
  case 0 show ?case by (simp add: settles_def)
next
  case (Suc m)
  show ?case
    unfolding parse_csv_while.simps(2) [of "Suc m" f' tokens items i]
      parse_csv_while.simps(2) [of m f tokens items i]
      match_eq Let_def prod.case
    by (intro settles_intros assms Suc.IH)
qed

lemma settles_csv:
  assumes "\<And>i. settles (f i) (f' i)"
  shows "settles (parse_csv m f tokens i) (parse_csv (Suc m) f' tokens i)"
  unfolding parse_csv_def
  by (intro settles_intros assms settles_csv_while)

lemma settles_tokens_while:
  assumes "\<And>i. settles (f i) (f' i)"
  shows "settles (parse_tokens_while m f es tokens this i)
           (parse_tokens_while (Suc m) f' es tokens this i)"
proof (induction m arbitrary: this i)
  case 0 show ?case by (simp add: settles_def)
next
  case (Suc m)
  show ?case
    unfolding parse_tokens_while.simps(2) [of "Suc m" f' es tokens this i]
      parse_tokens_while.simps(2) [of m f es tokens this i]
      match_eq Let_def prod.case
    by (intro settles_intros assms Suc.IH)
qed

lemma settles_tokens:
  assumes "\<And>i. settles (f i) (f' i)"
  shows "settles (parse_tokens m f es tokens i) (parse_tokens (Suc m) f' es tokens i)"
  unfolding parse_tokens_def
  by (intro settles_intros assms settles_tokens_while)

lemma settles_case_while:
  assumes "\<And>p i. settles (self p i) (self' p i)"
  shows "settles (parse_case_while m self tokens ifs i) (parse_case_while (Suc m) self' tokens ifs i)"
proof (induction m arbitrary: ifs i)
  case 0 show ?case by (simp add: settles_def)
next
  case (Suc m)
  show ?case
    unfolding parse_case_while.simps(2) [of "Suc m" self' tokens ifs i]
      parse_case_while.simps(2) [of m self tokens ifs i]
      match_eq Let_def prod.case
    by (intro settles_intros assms Suc.IH)
qed

lemma parse_statement_settles:
  assumes "\<And>p i. settles (self p i) (self' p i)"
  shows "settles (parse_statement n self tokens i) (parse_statement (Suc n) self' tokens i)"
  unfolding parse_statement_def match_eq Let_def prod.case
  by (intro settles_intros assms settles_csv settles_tokens settles_case_while)

lemma parse_cte_settles:
  assumes "\<And>p i. settles (self p i) (self' p i)"
  shows "settles (parse_cte n self tokens i) (parse_cte (Suc n) self' tokens i)"
  unfolding parse_cte_def match_eq Let_def prod.case
  by (intro settles_intros assms settles_csv settles_tokens settles_case_while)

lemma parse_select_settles:
  assumes "\<And>p i. settles (self p i) (self' p i)"
  shows "settles (parse_select n self tokens i) (parse_select (Suc n) self' tokens i)"
  unfolding parse_select_def match_eq Let_def prod.case
  by (intro settles_intros assms settles_csv settles_tokens settles_case_while)

lemma parse_from_settles:
  assumes "\<And>p i. settles (self p i) (self' p i)"
  shows "settles (parse_from n self tokens this i) (parse_from (Suc n) self' tokens this i)"
  unfolding parse_from_def match_eq Let_def prod.case
  by (intro settles_intros assms settles_csv settles_tokens settles_case_while)

lemma parse_join_settles:
  assumes "\<And>p i. settles (self p i) (self' p i)"
  shows "settles (parse_join n self tokens this i) (parse_join (Suc n) self' tokens this i)"
  unfolding parse_join_def match_eq Let_def prod.case
  by (intro settles_intros assms settles_csv settles_tokens settles_case_while)

lemma parse_table_settles:
  assumes "\<And>p i. settles (self p i) (self' p i)"
  shows "settles (parse_table n self tokens i) (parse_table (Suc n) self' tokens i)"
  unfolding parse_table_def match_eq Let_def prod.case
  by (intro settles_intros assms settles_csv settles_tokens settles_case_while)

lemma parse_where_settles:
  assumes "\<And>p i. settles (self p i) (self' p i)"
  shows "settles (parse_where n self tokens this i) (parse_where (Suc n) self' tokens this i)"
  unfolding parse_where_def match_eq Let_def prod.case
  by (intro settles_intros assms settles_csv settles_tokens settles_case_while)

lemma parse_group_settles:
  assumes "\<And>p i. settles (self p i) (self' p i)"
  shows "settles (parse_group n self tokens this i) (parse_group (Suc n) self' tokens this i)"
  unfolding parse_group_def match_eq Let_def prod.case
  by (intro settles_intros assms settles_csv settles_tokens settles_case_while)

lemma parse_having_settles:
  assumes "\<And>p i. settles (self p i) (self' p i)"
  shows "settles (parse_having n self tokens this i) (parse_having (Suc n) self' tokens this i)"
  unfolding parse_having_def match_eq Let_def prod.case
  by (intro settles_intros assms settles_csv settles_tokens settles_case_while)

lemma parse_order_settles:
  assumes "\<And>p i. settles (self p i) (self' p i)"
  shows "settles (parse_order n self tokens this i) (parse_order (Suc n) self' tokens this i)"
  unfolding parse_order_def match_eq Let_def prod.case
  by (intro settles_intros assms settles_csv settles_tokens settles_case_while)

lemma parse_union_settles:
  assumes "\<And>p i. settles (self p i) (self' p i)"
  shows "settles (parse_union n self tokens this i) (parse_union (Suc n) self' tokens this i)"
  unfolding parse_union_def match_eq Let_def prod.case
  by (intro settles_intros assms settles_csv settles_tokens settles_case_while)

lemma parse_expression_settles:
  assumes "\<And>p i. settles (self p i) (self' p i)"
  shows "settles (parse_expression n self tokens i) (parse_expression (Suc n) self' tokens i)"
  unfolding parse_expression_def match_eq Let_def prod.case
  by (intro settles_intros assms settles_csv settles_tokens settles_case_while)

lemma parse_conjunction_settles:
  assumes "\<And>p i. settles (self p i) (self' p i)"
  shows "settles (parse_conjunction n self tokens i) (parse_conjunction (Suc n) self' tokens i)"
  unfolding parse_conjunction_def match_eq Let_def prod.case
  by (intro settles_intros assms settles_csv settles_tokens settles_case_while)

lemma parse_equality_settles:
  assumes "\<And>p i. settles (self p i) (self' p i)"
  shows "settles (parse_equality n self tokens i) (parse_equality (Suc n) self' tokens i)"
  unfolding parse_equality_def match_eq Let_def prod.case
  by (intro settles_intros assms settles_csv settles_tokens settles_case_while)

lemma parse_comparison_settles:
  assumes "\<And>p i. settles (self p i) (self' p i)"
  shows "settles (parse_comparison n self tokens i) (parse_comparison (Suc n) self' tokens i)"
  unfolding parse_comparison_def match_eq Let_def prod.case
  by (intro settles_intros assms settles_csv settles_tokens settles_case_while)

lemma parse_range_settles:
  assumes "\<And>p i. settles (self p i) (self' p i)"
  shows "settles (parse_range n self tokens i) (parse_range (Suc n) self' tokens i)"
  unfolding parse_range_def match_eq Let_def prod.case
  by (intro settles_intros assms settles_csv settles_tokens settles_case_while)

lemma parse_term_settles:
  assumes "\<And>p i. settles (self p i) (self' p i)"
  shows "settles (parse_term n self tokens i) (parse_term (Suc n) self' tokens i)"
  unfolding parse_term_def match_eq Let_def prod.case
  by (intro settles_intros assms settles_csv settles_tokens settles_case_while)

lemma parse_factor_settles:
  assumes "\<And>p i. settles (self p i) (self' p i)"
  shows "settles (parse_factor n self tokens i) (parse_factor (Suc n) self' tokens i)"
  unfolding parse_factor_def match_eq Let_def prod.case
  by (intro settles_intros assms settles_csv settles_tokens settles_case_while)

lemma parse_unary_settles:
  assumes "\<And>p i. settles (self p i) (self' p i)"
  shows "settles (parse_unary n self tokens i) (parse_unary (Suc n) self' tokens i)"
  unfolding parse_unary_def match_eq Let_def prod.case
  by (intro settles_intros assms settles_csv settles_tokens settles_case_while)

lemma parse_special_settles:
  assumes "\<And>p i. settles (self p i) (self' p i)"
  shows "settles (parse_special n self tokens i) (parse_special (Suc n) self' tokens i)"
  unfolding parse_special_def match_eq Let_def prod.case
  by (intro settles_intros assms settles_csv settles_tokens settles_case_while)

lemma parse_count_settles:
  assumes "\<And>p i. settles (self p i) (self' p i)"
  shows "settles (parse_count n self tokens i) (parse_count (Suc n) self' tokens i)"
  unfolding parse_count_def match_eq Let_def prod.case
  by (intro settles_intros assms settles_csv settles_tokens settles_case_while)

lemma parse_cast_settles:
  assumes "\<And>p i. settles (self p i) (self' p i)"
  shows "settles (parse_cast n self tokens i) (parse_cast (Suc n) self' tokens i)"
  unfolding parse_cast_def match_eq Let_def prod.case
  by (intro settles_intros assms settles_csv settles_tokens settles_case_while)

lemma parse_primary_settles:
  assumes "\<And>p i. settles (self p i) (self' p i)"
  shows "settles (parse_primary n self tokens i) (parse_primary (Suc n) self' tokens i)"
  unfolding parse_primary_def match_eq Let_def prod.case
  by (intro settles_intros assms settles_csv settles_tokens settles_case_while)

lemma parse_brackets_settles:
  assumes "\<And>p i. settles (self p i) (self' p i)"
  shows "settles (parse_brackets n self tokens this i) (parse_brackets (Suc n) self' tokens this i)"
  unfolding parse_brackets_def match_eq Let_def prod.case
  by (intro settles_intros assms settles_csv settles_tokens settles_case_while)

lemma parse_window_settles:
  assumes "\<And>p i. settles (self p i) (self' p i)"
  shows "settles (parse_window n self tokens this i) (parse_window (Suc n) self' tokens this i)"
  unfolding parse_window_def match_eq Let_def prod.case
  by (intro settles_intros assms settles_csv settles_tokens settles_case_while)

lemma parse_case_settles:
  assumes "\<And>p i. settles (self p i) (self' p i)"
  shows "settles (parse_case n self tokens i) (parse_case (Suc n) self' tokens i)"
  unfolding parse_case_def match_eq Let_def prod.case
  by (intro settles_intros assms settles_csv settles_tokens settles_case_while)

lemma parse_column_settles:
  assumes "\<And>p i. settles (self p i) (self' p i)"
  shows "settles (parse_column n self fs tokens i) (parse_column (Suc n) self' fs tokens i)"
  unfolding parse_column_def match_eq Let_def prod.case
  by (intro settles_intros assms settles_csv settles_tokens settles_case_while)

lemmas parse_settles =
  parse_statement_settles parse_cte_settles parse_select_settles parse_from_settles parse_join_settles parse_table_settles parse_where_settles parse_group_settles parse_having_settles parse_order_settles parse_union_settles parse_expression_settles parse_conjunction_settles parse_equality_settles parse_comparison_settles parse_range_settles parse_term_settles parse_factor_settles parse_unary_settles parse_special_settles parse_count_settles parse_cast_settles parse_primary_settles parse_brackets_settles parse_window_settles parse_case_settles parse_column_settles

lemma call_settles: "settles (call n fs tokens p i) (call (Suc n) fs tokens p i)"
proof (induction n arbitrary: p i)
  case 0
  show ?case by (simp add: settles_def)
next
  case (Suc n)
  show ?case
    unfolding call.simps(2) [of "Suc n" fs tokens p i] call.simps(2) [of n fs tokens p i]
    by (cases p; simp only: production.case; rule parse_settles [OF Suc.IH])
qed

lemma call_more_fuel:
  assumes "call n fs tokens p i \<noteq> OutOfFuel" "n \<le> m"
  shows "call m fs tokens p i = call n fs tokens p i"
  using assms(2,1)
proof (induction m rule: dec_induct)
  case base show ?case by simp
next
  case (step k)
  then show ?case using call_settles [of k fs tokens p i] by (simp add: settles_def)
qed

lemma split_chunks_nonempty: "chunks \<noteq> [] \<Longrightarrow> split_chunks raw chunks \<noteq> []"
  by (induction raw arbitrary: chunks) (simp_all add: Let_def)

lemma sum_length_append_last:
  "chunks \<noteq> [] \<Longrightarrow>
   sum_list (map length (butlast chunks @ [last chunks @ [t]])) = Suc (sum_list (map length chunks))"
  by (cases chunks rule: rev_cases) simp_all

lemma split_chunks_total:
  "chunks \<noteq> [] \<Longrightarrow>
   sum_list (map length (split_chunks raw chunks)) = length raw + sum_list (map length chunks)"
proof (induction raw arbitrary: chunks)
  case Nil then show ?case by simp
next
  case (Cons t raw)
  let ?cs = "if token_type t = T_SEMICOLON then chunks @ [[]] else chunks"
  have ne: "?cs \<noteq> []" using Cons.prems by simp
  have "sum_list (map length ?cs) = sum_list (map length chunks)" by simp
  with Cons.IH [of "butlast ?cs @ [last ?cs @ [t]]"] sum_length_append_last [OF ne, of t]
  show ?case by (simp add: Let_def)
qed

lemma chunk_length_le:
  assumes "c \<in> set (split_chunks raw [[]])"
  shows "length c \<le> length raw"
proof -
  have "length c \<le> sum_list (map length (split_chunks raw [[]]))"
    using assms by (simp add: member_le_sum_list)
  then show ?thesis by (simp add: split_chunks_total)
qed

lemma parse_chunks_finishes:
  "\<forall>c\<in>set chunks. need c P_statement 0 \<le> n \<Longrightarrow> finishes (parse_chunks n fs chunks acc)"
proof (induction chunks arbitrary: acc)
  case Nil show ?case by (simp add: finishes_def)
next
  case (Cons c chunks)
  then have "finishes (call n fs c P_statement 0)" by (simp add: call_finishes)
  with Cons show ?case
    by (cases "call n fs c P_statement 0") (auto simp: advance_def finishes_def split: if_splits)
qed

lemma parse_finishes:
  assumes "12 * length raw + 2 \<le> n"
  shows "parse n opts raw \<noteq> OutOfFuel"
proof -
  have "need c P_statement 0 \<le> n" if "c \<in> set (split_chunks raw [[]])" for c
    using chunk_length_le [OF that] assms by (simp add: need_def)
  then show ?thesis
    using parse_chunks_finishes [of "split_chunks raw [[]]" n "Parser_functions opts" "[]"]
    by (simp add: parse_def finishes_def)
qed

lemma parse_chunks_settles:
  "settles (parse_chunks n fs chunks acc) (parse_chunks (Suc n) fs chunks acc)"
proof (induction chunks arbitrary: acc)
  case Nil show ?case by (simp add: settles_def)
next
  case (Cons c chunks)
  show ?case
    using call_settles [of n fs c P_statement 0] Cons [of "acc @ [x]" for x]
    by (cases "call n fs c P_statement 0") (auto simp: advance_def settles_def)
qed

lemma parse_more_fuel:
  assumes "parse n opts raw \<noteq> OutOfFuel" "n \<le> m"
  shows "parse m opts raw = parse n opts raw"
  using assms(2,1)
proof (induction m rule: dec_induct)
  case base show ?case by simp
next
  case (step k)
  then show ?case
    using parse_chunks_settles [of k "Parser_functions opts" "split_chunks raw [[]]" "[]"]
    by (simp add: settles_def parse_def)
qed

lemma match_success: "match types tokens index = (True, j) \<Longrightarrow> j = index + 1"
  by (auto simp: match_eq)

lemma match_failure: "match types tokens index = (False, j) \<Longrightarrow> j = index"
  by (auto simp: match_eq)

text \<open>
  C10.  \<^verbatim>\<open>parse\<close> terminates on every token sequence: a budget of twelve levels per token
  plus two is always enough, and every larger budget gives the same outcome.  A successful
  \<^verbatim>\<open>_match\<close> advances the cursor by exactly one, a failed one leaves it in place, and no
  production returns with the cursor before the position it started from.
\<close>

theorem parse_terminates:
  "(\<forall>n. 12 * length raw_tokens + 2 \<le> n \<longrightarrow>
      parse n opts raw_tokens \<noteq> OutOfFuel
      \<and> parse n opts raw_tokens = parse (12 * length raw_tokens + 2) opts raw_tokens)
   \<and> (match types tokens index = (True, j) \<longrightarrow> j = index + 1)
   \<and> (match types tokens index = (False, j) \<longrightarrow> j = index)
   \<and> (call n functions tokens p index = Return (x, j) \<longrightarrow> index \<le> j)"
proof (intro conjI allI impI)
  fix n assume n: "12 * length raw_tokens + 2 \<le> n"
  then show "parse n opts raw_tokens \<noteq> OutOfFuel" by (rule parse_finishes)
  have "parse (12 * length raw_tokens + 2) opts raw_tokens \<noteq> OutOfFuel"
    by (rule parse_finishes) simp
  then show "parse n opts raw_tokens = parse (12 * length raw_tokens + 2) opts raw_tokens"
    using n by (rule parse_more_fuel)
next
  assume "match types tokens index = (True, j)"
  then show "j = index + 1" by (rule match_success)
next
  assume "match types tokens index = (False, j)"
  then show "j = index" by (rule match_failure)
next
  assume "call n functions tokens p index = Return (x, j)"
  then show "index \<le> j" by (rule call_index_le)
qed

theorem parse_terminates_witness:
  "parse 26 Map.empty [tok T_SELECT ''SELECT'', tok T_VAR ''a'']
     = Return [Some (exp_Select [name_column ''a''])]
   \<and> parse 40 Map.empty [tok T_SELECT ''SELECT'', tok T_VAR ''a'']
     = Return [Some (exp_Select [name_column ''a''])]
   \<and> match [T_SELECT] [tok T_SELECT ''SELECT'', tok T_VAR ''a''] 0 = (True, 1)
   \<and> match [T_FROM] [tok T_SELECT ''SELECT'', tok T_VAR ''a''] 0 = (False, 0)
   \<and> call 26 FUNCTIONS [tok T_SELECT ''SELECT'', tok T_VAR ''a''] P_select 0
     = Return (Some (exp_Select [name_column ''a'']), 2)"
proof -
  let ?raw = "[tok T_SELECT ''SELECT'', tok T_VAR ''a'']"
  have a: "parse 26 Map.empty ?raw = Return [Some (exp_Select [name_column ''a''])]"
    by code_simp
  have b: "call 26 FUNCTIONS ?raw P_select 0 = Return (Some (exp_Select [name_column ''a'']), 2)"
    by code_simp
  have c: "match [T_SELECT] ?raw 0 = (True, 1)" "match [T_FROM] ?raw 0 = (False, 0)"
    by code_simp+
  have len: "12 * length ?raw + 2 = 26" by simp
  have "\<forall>n. 12 * length ?raw + 2 \<le> n \<longrightarrow>
      parse n Map.empty ?raw \<noteq> OutOfFuel
      \<and> parse n Map.empty ?raw = parse (12 * length ?raw + 2) Map.empty ?raw"
    using parse_terminates [of ?raw Map.empty "[T_SELECT]" ?raw 0 1 26 FUNCTIONS P_select
      "Some (exp_Select [name_column ''a''])"] by (rule conjunct1)
  then have "26 \<le> (40::nat) \<longrightarrow> parse 40 Map.empty ?raw \<noteq> OutOfFuel
      \<and> parse 40 Map.empty ?raw = parse 26 Map.empty ?raw"
    unfolding len by (rule spec)
  then have "parse 40 Map.empty ?raw = parse 26 Map.empty ?raw" by linarith
  with a b c show ?thesis by simp
qed

section \<open>Statement splitting\<close>

text \<open>
  C1.  On \<^verbatim>\<open>SELECT a ; SELECT b\<close> the splitter puts the semicolon at the head of the
  second chunk instead of keeping it in the chunk it closes, and \<^verbatim>\<open>parse\<close> raises on that
  semicolon instead of returning one root per statement.
\<close>

theorem parse_two_statements:
  "split_chunks
     [tok T_SELECT ''SELECT'', tok T_VAR ''a'', tok T_SEMICOLON '';'',
      tok T_SELECT ''SELECT'', tok T_VAR ''b''] [[]]
   = [[tok T_SELECT ''SELECT'', tok T_VAR ''a''],
      [tok T_SEMICOLON '';'', tok T_SELECT ''SELECT'', tok T_VAR ''b'']]
   \<and> parse 40 Map.empty
     [tok T_SELECT ''SELECT'', tok T_VAR ''a'', tok T_SEMICOLON '';'',
      tok T_SELECT ''SELECT'', tok T_VAR ''b'']
   = Raise (Invalid_expression (Some (tok T_SEMICOLON '';'')))"
  by code_simp

text \<open>
  The same holds for every input: each chunk after the first starts with a semicolon, which
  no production consumes, so a token sequence that contains a semicolon is never parsed.
\<close>

lemma split_chunks_heads:
  assumes "chunks \<noteq> []"
    and "\<forall>c\<in>set (tl chunks). c \<noteq> [] \<and> token_type (hd c) = T_SEMICOLON"
  shows "\<forall>c\<in>set (tl (split_chunks raw chunks)). c \<noteq> [] \<and> token_type (hd c) = T_SEMICOLON"
  using assms
proof (induction raw arbitrary: chunks)
  case Nil then show ?case by simp
next
  case (Cons t raw)
  obtain cs c where chunks: "chunks = cs @ [c]"
    using Cons.prems(1) by (cases chunks rule: rev_cases) auto
  show ?case
  proof (cases "token_type t = T_SEMICOLON")
    case True
    have "\<forall>c\<in>set (tl (split_chunks raw (chunks @ [[t]]))).
            c \<noteq> [] \<and> token_type (hd c) = T_SEMICOLON"
      using Cons.prems True by (intro Cons.IH) (auto simp: tl_append split: list.splits)
    with True show ?thesis by (simp add: Let_def)
  next
    case False
    have "\<forall>c\<in>set (tl (split_chunks raw (cs @ [c @ [t]]))).
            c \<noteq> [] \<and> token_type (hd c) = T_SEMICOLON"
      using Cons.prems chunks
      by (intro Cons.IH) (auto simp: tl_append hd_append split: list.splits)
    with False chunks show ?thesis by (simp add: Let_def)
  qed
qed

lemma split_chunks_count:
  "chunks \<noteq> [] \<Longrightarrow>
   length (split_chunks raw chunks)
     = length chunks + length (filter (\<lambda>t. token_type t = T_SEMICOLON) raw)"
  by (induction raw arbitrary: chunks) (auto simp: Let_def)

lemma statement_at_semicolon:
  assumes "tokens \<noteq> []" "token_type (hd tokens) = T_SEMICOLON"
  shows "call n fs tokens P_statement 0 = OutOfFuel
       \<or> call n fs tokens P_statement 0 = Return (None, 0)"
proof -
  have no: "\<not> looking_at [T_WITH] tokens 0" "\<not> looking_at [T_SELECT] tokens 0"
    using assms by (cases tokens; simp add: looking_at_def curr_def safe_get_def)+
  show ?thesis
  proof (cases n)
    case 0 then show ?thesis by simp
  next
    case (Suc k)
    then show ?thesis using no
      by (cases k) (simp_all add: parse_statement_def parse_select_def match_eq)
  qed
qed

lemma parse_chunks_semicolon:
  assumes "\<exists>c\<in>set chunks. c \<noteq> [] \<and> token_type (hd c) = T_SEMICOLON"
  shows "parse_chunks n fs chunks acc \<noteq> Return r"
  using assms
proof (induction chunks arbitrary: acc)
  case Nil then show ?case by simp
next
  case (Cons c chunks)
  show ?case
  proof (cases "c \<noteq> [] \<and> token_type (hd c) = T_SEMICOLON")
    case True
    then show ?thesis
      using statement_at_semicolon [of c n fs]
      by (auto simp: advance_def)
  next
    case False
    with Cons.prems have "\<exists>c\<in>set chunks. c \<noteq> [] \<and> token_type (hd c) = T_SEMICOLON"
      by auto
    then have "parse_chunks n fs chunks acc' \<noteq> Return r" for acc' by (rule Cons.IH)
    then show ?thesis
      by (cases "call n fs c P_statement 0") (auto simp: advance_def split: if_splits)
  qed
qed

lemma parse_semicolon_never_returns:
  assumes "\<exists>t\<in>set raw_tokens. token_type t = T_SEMICOLON"
  shows "parse n opts raw_tokens \<noteq> Return r"
proof -
  let ?chunks = "split_chunks raw_tokens [[]]"
  have "filter (\<lambda>t. token_type t = T_SEMICOLON) raw_tokens \<noteq> []"
    using assms by (simp add: filter_empty_conv)
  then have "1 < length ?chunks" by (simp add: split_chunks_count)
  then have "tl ?chunks \<noteq> []" by (cases ?chunks) auto
  moreover have "\<forall>c\<in>set (tl ?chunks). c \<noteq> [] \<and> token_type (hd c) = T_SEMICOLON"
    by (rule split_chunks_heads) simp_all
  ultimately have "\<exists>c\<in>set ?chunks. c \<noteq> [] \<and> token_type (hd c) = T_SEMICOLON"
    by (cases ?chunks) (auto simp: neq_Nil_conv)
  then show ?thesis unfolding parse_def by (rule parse_chunks_semicolon)
qed

section \<open>Joins\<close>

text \<open>
  C2.  On \<^verbatim>\<open>SELECT a FROM t LEFT\<close> the side keyword is consumed, no \<^verbatim>\<open>JOIN\<close> follows,
  and \<^verbatim>\<open>parse\<close> returns the tree of \<^verbatim>\<open>SELECT a FROM t\<close>: the keyword is dropped without
  an error.
\<close>

theorem parse_left_without_join:
  "parse 40 Map.empty
     [tok T_SELECT ''SELECT'', tok T_VAR ''a'', tok T_FROM ''FROM'', tok T_VAR ''t'',
      tok T_LEFT ''LEFT'']
   = Return [Some (exp_From (name_table ''t'') (Some (exp_Select [name_column ''a''])))]"
  by code_simp

section \<open>The whole chunk must be consumed\<close>

lemma parse_chunks_done:
  assumes "\<forall>c\<in>set done. \<exists>s j. call n fs c P_statement 0 = Return (s, j) \<and> int (length c) \<le> j"
  shows "\<exists>acc'. parse_chunks n fs (done @ rest) acc = parse_chunks n fs rest acc'"
  using assms
proof (induction "done" arbitrary: acc)
  case Nil show ?case by auto
next
  case (Cons c cs)
  then obtain s j where "call n fs c P_statement 0 = Return (s, j)" "int (length c) \<le> j"
    by auto
  moreover have "\<exists>acc'. parse_chunks n fs (cs @ rest) (acc @ [s]) = parse_chunks n fs rest acc'"
    using Cons.prems by (intro Cons.IH) simp
  ultimately show ?case by (auto simp: advance_def)
qed

lemma curr_nth: "0 \<le> j \<Longrightarrow> j < int (length tokens) \<Longrightarrow> curr tokens j = Some (tokens ! nat j)"
  by (simp add: curr_def safe_get_def)

text \<open>
  C3.  Let the chunks before \<open>tokens\<close> have been parsed completely.  If the statement
  dispatcher returns on \<open>tokens\<close> with the cursor \<open>j\<close> before the end of the chunk, \<open>parse\<close>
  raises the error that names the token at \<open>j\<close>, the first one not consumed; if the
  dispatcher raises, \<open>parse\<close> raises the same error.  The outcome of \<open>parse\<close> is either a list
  of results or an error, never both.
\<close>

theorem parse_requires_whole_chunk:
  assumes "split_chunks raw_tokens [[]] = done @ tokens # rest"
    and "\<forall>c\<in>set done. \<exists>s j. call n (Parser_functions opts) c P_statement 0 = Return (s, j)
           \<and> int (length c) \<le> j"
  shows "(call n (Parser_functions opts) tokens P_statement 0 = Return (s, j)
            \<and> j < int (length tokens)
          \<longrightarrow> 0 \<le> j \<and> parse n opts raw_tokens = Raise (Invalid_expression (Some (tokens ! nat j))))
       \<and> (call n (Parser_functions opts) tokens P_statement 0 = Raise e
          \<longrightarrow> parse n opts raw_tokens = Raise e)"
proof -
  obtain acc where acc: "parse n opts raw_tokens
      = parse_chunks n (Parser_functions opts) (tokens # rest) acc"
    using parse_chunks_done [OF assms(2), of "tokens # rest" "[]"] assms(1)
    by (auto simp: parse_def)
  show ?thesis
  proof (intro conjI impI)
    assume r: "call n (Parser_functions opts) tokens P_statement 0 = Return (s, j)
      \<and> j < int (length tokens)"
    then show "0 \<le> j" using call_index_le by blast
    with r show "parse n opts raw_tokens = Raise (Invalid_expression (Some (tokens ! nat j)))"
      by (simp add: acc advance_def curr_nth)
  next
    assume "call n (Parser_functions opts) tokens P_statement 0 = Raise e"
    then show "parse n opts raw_tokens = Raise e" by (simp add: acc advance_def)
  qed
qed

theorem parse_requires_whole_chunk_witness:
  "parse 40 Map.empty [tok T_SELECT ''SELECT'', tok T_VAR ''a'', tok T_R_PAREN '')'']
     = Raise (Invalid_expression (Some (tok T_R_PAREN '')'')))
   \<and> parse 40 Map.empty [tok T_SELECT ''SELECT'', tok T_VAR ''a'', tok T_GROUP ''GROUP'']
     = Raise (ValueError ''Expecting BY'')"
proof -
  let ?a = "[tok T_SELECT ''SELECT'', tok T_VAR ''a'', tok T_R_PAREN '')'']"
  let ?b = "[tok T_SELECT ''SELECT'', tok T_VAR ''a'', tok T_GROUP ''GROUP'']"
  have a1: "split_chunks ?a [[]] = [] @ ?a # []" by code_simp
  have b1: "split_chunks ?b [[]] = [] @ ?b # []" by code_simp
  have none: "\<forall>c\<in>set []. \<exists>s j. call 40 (Parser_functions Map.empty) c P_statement 0 = Return (s, j)
      \<and> int (length c) \<le> j" by simp
  have a2: "call 40 (Parser_functions Map.empty) ?a P_statement 0
      = Return (Some (exp_Select [name_column ''a'']), 2) \<and> 2 < int (length ?a)"
    by code_simp
  have b2: "call 40 (Parser_functions Map.empty) ?b P_statement 0 = Raise (ValueError ''Expecting BY'')"
    by code_simp
  have a3: "?a ! nat 2 = tok T_R_PAREN '')''" by code_simp
  from parse_requires_whole_chunk [OF a1 none, of "Some (exp_Select [name_column ''a''])" 2] a2 a3
  have "parse 40 Map.empty ?a = Raise (Invalid_expression (Some (tok T_R_PAREN '')'')))"
    by metis
  moreover from parse_requires_whole_chunk [OF b1 none, of _ _ "ValueError ''Expecting BY''"] b2
  have "parse 40 Map.empty ?b = Raise (ValueError ''Expecting BY'')"
    by metis
  ultimately show ?thesis by (rule conjI)
qed

end
